theory Spec2Isabelle
  imports Main "HOL-Library.Multiset"
begin

section \<open>Python values and errors\<close>

text \<open>
  The encoders of \<^verbatim>\<open>claasp/components\<close> are pure Python functions over lists of
  identifiers. Every list access of the source that can raise is a branch of the model:
  results live in \<open>error + 'a\<close>, with \<open>Inl\<close> the exception.
\<close>

datatype error = IndexError | TypeError | ZeroDivisionError | ValueError

definition ebind :: "error + 'a \<Rightarrow> ('a \<Rightarrow> error + 'b) \<Rightarrow> error + 'b" where
  "ebind m f = (case m of Inl e \<Rightarrow> Inl e | Inr x \<Rightarrow> f x)"

definition py_get :: "'a list \<Rightarrow> int \<Rightarrow> error + 'a" where
  \<comment> \<open>\<^verbatim>\<open>xs[i]\<close> of Python: \<open>-1\<close> is the last element; outside \<open>-len .. len-1\<close> it raises.\<close>
  "py_get xs i =
     (if 0 \<le> i \<and> i < int (length xs) then Inr (xs ! nat i)
      else if - int (length xs) \<le> i \<and> i < 0 then Inr (xs ! nat (int (length xs) + i))
      else Inl IndexError)"

definition py_last :: "'a list \<Rightarrow> error + 'a" where
  \<comment> \<open>\<^verbatim>\<open>xs[-1]\<close>\<close>
  "py_last xs = py_get xs (- 1)"

section \<open>OR component: sign of a linear trail\<close>

text \<open>
  \<^verbatim>\<open>OR.generic_sign_linear_constraints\<close> (or_component.py). The table is the literal
  of the source; the loop multiplies one entry per output bit position.
\<close>

definition or_LAT :: "int list list list" where
  "or_LAT = [[[1, - 1], [0, 1]], [[0, 1], [0, 1]]]"

definition lat_entry :: "int list \<Rightarrow> int list \<Rightarrow> int \<Rightarrow> int \<Rightarrow> error + int" where
  \<comment> \<open>\<^verbatim>\<open>or_LAT[inputs[i]][inputs[input_size // 2 + i]][outputs[i]]\<close>\<close>
  "lat_entry inputs outputs input_size i =
     ebind (py_get inputs i) (\<lambda>a.
     ebind (py_get or_LAT a) (\<lambda>plane.
     ebind (py_get inputs (input_size div 2 + i)) (\<lambda>b.
     ebind (py_get plane b) (\<lambda>row.
     ebind (py_get outputs i) (\<lambda>c.
     py_get row c)))))"

fun sign_loop :: "int list \<Rightarrow> int list \<Rightarrow> int \<Rightarrow> nat list \<Rightarrow> int \<Rightarrow> error + int" where
  "sign_loop inputs outputs input_size [] sign = Inr sign"
| "sign_loop inputs outputs input_size (i # rest) sign =
     ebind (lat_entry inputs outputs input_size (int i)) (\<lambda>e.
       sign_loop inputs outputs input_size rest (sign * e))"

definition generic_sign_linear_constraints :: "nat \<Rightarrow> nat \<Rightarrow> int list \<Rightarrow> int list \<Rightarrow> error + int" where
  "generic_sign_linear_constraints input_bit_size output_bit_size inputs outputs =
     sign_loop inputs outputs (int input_bit_size) [0..<output_bit_size] 1"

text \<open>
  The reference of the specification: the table it spells out,
  \<^verbatim>\<open>[[[1,-1],[0,1]],[[0,1],[0,1]]]\<close>, written here a second time and read by a plain
  lookup (no Python indexing), independently of the table \<open>or_LAT\<close> of the function body.
\<close>

definition claimed_or_LAT :: "int list list list" where
  "claimed_or_LAT = [[[1, - 1], [0, 1]], [[0, 1], [0, 1]]]"

definition lat_at :: "int \<Rightarrow> int \<Rightarrow> int \<Rightarrow> int" where
  "lat_at a b c = claimed_or_LAT ! nat a ! nat b ! nat c"

definition sign_product :: "nat \<Rightarrow> nat \<Rightarrow> int list \<Rightarrow> int list \<Rightarrow> int" where
  "sign_product input_size output_size inputs outputs =
     (\<Prod>i<output_size. lat_at (inputs ! i) (inputs ! (input_size div 2 + i)) (outputs ! i))"


definition py_list_plus_str :: "string list \<Rightarrow> string \<Rightarrow> error + string list" where
  \<comment> \<open>\<^verbatim>\<open>a_list + a_str\<close>: Python concatenates a list only with a list.\<close>
  "py_list_plus_str xs s = Inl TypeError"

fun emap :: "('a \<Rightarrow> error + 'b) \<Rightarrow> 'a list \<Rightarrow> error + 'b list" where
  \<comment> \<open>a loop that collects one result per element and stops at the first exception\<close>
  "emap f [] = Inr []"
| "emap f (x # xs) = ebind (f x) (\<lambda>y. ebind (emap f xs) (\<lambda>ys. Inr (y # ys)))"

section \<open>Identifiers\<close>

text \<open>
  Bit identifiers are strings built by f-strings. \<open>str_nat\<close> is \<^verbatim>\<open>str(i)\<close> for a
  non-negative integer, \<open>str_int\<close> for any integer and \<open>pad3\<close> is the format
  \<^verbatim>\<open>{i:03}\<close>.
\<close>

definition digit_char :: "nat \<Rightarrow> char" where
  "digit_char d = ''0123456789'' ! d"

fun str_nat :: "nat \<Rightarrow> string" where
  "str_nat n = (if n < 10 then [digit_char n] else str_nat (n div 10) @ [digit_char (n mod 10)])"

declare str_nat.simps [simp del]

definition str_int :: "int \<Rightarrow> string" where
  "str_int i = (if i < 0 then CHR ''-'' # str_nat (nat (- i)) else str_nat (nat i))"

definition pad3 :: "nat \<Rightarrow> string" where
  "pad3 n = replicate (3 - length (str_nat n)) CHR ''0'' @ str_nat n"

text \<open>
  The attributes of a component that the encoders read. \<open>description_1\<close> is
  \<^verbatim>\<open>self.description[1]\<close>, the operand count.
\<close>

record component =
  comp_id :: string
  input_id_links :: "string list"
  input_bit_positions :: "nat list list"
  input_bit_size :: nat
  output_bit_size :: nat
  description_1 :: nat

definition generate_input_ids :: "component \<Rightarrow> nat \<times> string list" where
  \<comment> \<open>Modelled from the spec: \<^verbatim>\<open>Component._generate_input_ids\<close> is defined in the base class,
      outside the files at hand. One identifier per wired bit, derived from the source id
      and the bit position, in the format the docstrings of modsub_component.py show
      (\<^verbatim>\<open>plaintext_32\<close>).\<close>
  "generate_input_ids c =
     (let input_bit_ids = concat (map (\<lambda>(link, positions). map (\<lambda>j. link @ ''_'' @ str_nat j) positions)
                                 (zip (input_id_links c) (input_bit_positions c)))
      in (length input_bit_ids, input_bit_ids))"

definition generate_output_ids :: "component \<Rightarrow> nat \<times> string list" where
  \<comment> \<open>Modelled from the spec: \<^verbatim>\<open>Component._generate_output_ids\<close>, also of the base class:
      one identifier per output bit, derived from the component id (\<^verbatim>\<open>modsub_0_7_31\<close>).\<close>
  "generate_output_ids c =
     (output_bit_size c, map (\<lambda>j. comp_id c @ ''_'' @ str_nat j) [0..<output_bit_size c])"

section \<open>CNF clauses and the clause helpers\<close>

text \<open>
  A clause string such as \<^verbatim>\<open>c -x -y\<close> is the list of its signed literals; a CMS
  xor-clause \<^verbatim>\<open>x -o a b\<close> is an \<open>XorClause\<close>.
\<close>

datatype literal = Pos string | Neg string

datatype clause = Clause "literal list" | XorClause "literal list"

fun lit_true :: "(string \<Rightarrow> bool) \<Rightarrow> literal \<Rightarrow> bool" where
  "lit_true \<sigma> (Pos v) = \<sigma> v"
| "lit_true \<sigma> (Neg v) = (\<not> \<sigma> v)"

fun clause_true :: "(string \<Rightarrow> bool) \<Rightarrow> clause \<Rightarrow> bool" where
  "clause_true \<sigma> (Clause ls) = list_ex (lit_true \<sigma>) ls"
| "clause_true \<sigma> (XorClause ls) = foldr (\<lambda>l p. lit_true \<sigma> l \<noteq> p) ls False"

definition cnf_true :: "(string \<Rightarrow> bool) \<Rightarrow> clause list \<Rightarrow> bool" where
  "cnf_true \<sigma> cs = list_all (clause_true \<sigma>) cs"

definition cnf_carry :: "string \<Rightarrow> string \<Rightarrow> string \<Rightarrow> string \<Rightarrow> clause list" where
  \<comment> \<open>Modelled from the spec: \<^verbatim>\<open>sat_utils.cnf_carry\<close> is not among the files; the fixed
      clause set of "carry is the majority of the three bits".\<close>
  "cnf_carry carry x y previous_carry =
     [Clause [Pos carry, Neg y, Neg previous_carry],
      Clause [Pos carry, Neg x, Neg previous_carry],
      Clause [Pos carry, Neg x, Neg y],
      Clause [Neg carry, Pos y, Pos previous_carry],
      Clause [Neg carry, Pos x, Pos previous_carry],
      Clause [Neg carry, Pos x, Pos y]]"

definition cnf_and :: "string \<Rightarrow> string list \<Rightarrow> clause list" where
  \<comment> \<open>Modelled from the spec: \<^verbatim>\<open>sat_utils.cnf_and\<close>, "AND of 2 bits" (any arity here).\<close>
  "cnf_and result variables =
     map (\<lambda>v. Clause [Neg result, Pos v]) variables @ [Clause (Pos result # map Neg variables)]"

fun xor_rows :: "string list \<Rightarrow> (literal list \<times> bool) list" where
  \<comment> \<open>every sign pattern over the variables, with the parity of its negated literals\<close>
  "xor_rows [] = [([], False)]"
| "xor_rows (v # vs) = concat (map (\<lambda>(ls, p). [(Pos v # ls, p), (Neg v # ls, \<not> p)]) (xor_rows vs))"

definition cnf_xor :: "string \<Rightarrow> string list \<Rightarrow> clause list" where
  \<comment> \<open>Modelled from the spec: \<^verbatim>\<open>sat_utils.cnf_xor\<close>, result = XOR of the variables; for two
      variables the clauses the docstring of \<^verbatim>\<open>MODADD.sat_constraints\<close> ends with.\<close>
  "cnf_xor result variables =
     map (\<lambda>(ls, p). Clause ((if p then Pos result else Neg result) # ls)) (xor_rows variables)"

definition cnf_result :: "string \<Rightarrow> string \<Rightarrow> string \<Rightarrow> string \<Rightarrow> string \<Rightarrow> clause list" where
  \<comment> \<open>Modelled from the spec: \<^verbatim>\<open>sat_utils.cnf_result\<close>, the 3-input XOR "using an auxiliary
      intermediate variable for the first two inputs, then XOR-ing with the third".\<close>
  "cnf_result result x y carry intermediate =
     cnf_xor intermediate [x, y] @ cnf_xor result [intermediate, carry]"

definition cnf_carry_comp2 :: "string \<Rightarrow> string \<Rightarrow> string \<Rightarrow> clause list" where
  \<comment> \<open>Modelled from the spec: \<^verbatim>\<open>sat_utils.cnf_carry_comp2\<close>, the relation that
      \<^verbatim>\<open>MODSUB.smt_constraints\<close> writes as \<^verbatim>\<open>(= carry (and (not x) previous_carry))\<close>.\<close>
  "cnf_carry_comp2 carry x previous_carry =
     [Clause [Neg carry, Neg x],
      Clause [Neg carry, Pos previous_carry],
      Clause [Pos carry, Pos x, Neg previous_carry]]"

definition cnf_inequality :: "string \<Rightarrow> string \<Rightarrow> clause list" where
  \<comment> \<open>Modelled from the spec: \<^verbatim>\<open>sat_utils.cnf_inequality\<close>, "the complement inequality check".\<close>
  "cnf_inequality a b = [Clause [Pos a, Pos b], Clause [Neg a, Neg b]]"

definition cnf_result_comp2 :: "string \<Rightarrow> string \<Rightarrow> string \<Rightarrow> clause list" where
  \<comment> \<open>Modelled from the spec: \<^verbatim>\<open>sat_utils.cnf_result_comp2\<close>, the relation that
      \<^verbatim>\<open>MODSUB.smt_constraints\<close> writes as \<^verbatim>\<open>(= result (xor (not x) carry))\<close>.\<close>
  "cnf_result_comp2 result x carry =
     [Clause [Pos result, Pos x, Pos carry],
      Clause [Pos result, Neg x, Neg carry],
      Clause [Neg result, Pos x, Neg carry],
      Clause [Neg result, Neg x, Pos carry]]"

definition cnf_equivalent :: "string list \<Rightarrow> clause list" where
  \<comment> \<open>Modelled from the spec: \<^verbatim>\<open>sat_utils.cnf_equivalent\<close>, all the variables are equal.\<close>
  "cnf_equivalent variables =
     concat (map (\<lambda>(a, b). [Clause [Neg a, Pos b], Clause [Pos a, Neg b]]) (zip variables (tl variables)))"

definition cnf_or :: "string \<Rightarrow> string list \<Rightarrow> clause list" where
  \<comment> \<open>Modelled from the spec: the Tseitin encoding of a 2-input OR, 3 clauses.\<close>
  "cnf_or result variables =
     map (\<lambda>v. Clause [Pos result, Neg v]) variables @ [Clause (Neg result # map Pos variables)]"

definition cnf_or_seq :: "string list \<Rightarrow> string list \<Rightarrow> error + clause list" where
  \<comment> \<open>Modelled from the spec: \<^verbatim>\<open>sat_utils.cnf_or_seq\<close>, 2-input ORs "chained via intermediate
      variables": the first result is the OR of the first two variables, each later result
      the OR of the previous result and the next variable.\<close>
  "cnf_or_seq results variables =
     ebind (py_get results 0) (\<lambda>r0. ebind (py_get variables 0) (\<lambda>v0. ebind (py_get variables 1) (\<lambda>v1.
     ebind (emap (\<lambda>i. ebind (py_get results (int i)) (\<lambda>r. ebind (py_get results (int i - 1)) (\<lambda>p.
                        ebind (py_get variables (int i + 1)) (\<lambda>v. Inr (cnf_or r [p, v])))))
                 [1..<length results])
       (\<lambda>rest. Inr (cnf_or r0 [v0, v1] @ concat rest)))))"

section \<open>SMT-LIB assertions\<close>

text \<open>
  The terms the encoders build with \<^verbatim>\<open>smt_utils\<close>. The helpers are not among the
  files; their output is fixed by the docstrings of \<^verbatim>\<open>MODADD.smt_constraints\<close> and
  \<^verbatim>\<open>MODSUB.smt_constraints\<close>, for instance
  \<^verbatim>\<open>(assert (= c (or (and x y) (and x p) (and y p))))\<close>.
\<close>

datatype smt_term =
    SVar string
  | SNot smt_term
  | SAnd "smt_term list"
  | SOr "smt_term list"
  | SXor "smt_term list"
  | SEq smt_term smt_term
  | SDistinct smt_term smt_term

datatype smt_command = Assert smt_term

fun smt_eval :: "(string \<Rightarrow> bool) \<Rightarrow> smt_term \<Rightarrow> bool" where
  "smt_eval \<sigma> (SVar v) = \<sigma> v"
| "smt_eval \<sigma> (SNot t) = (\<not> smt_eval \<sigma> t)"
| "smt_eval \<sigma> (SAnd ts) = list_all (smt_eval \<sigma>) ts"
| "smt_eval \<sigma> (SOr ts) = list_ex (smt_eval \<sigma>) ts"
| "smt_eval \<sigma> (SXor ts) = foldr (\<lambda>t p. smt_eval \<sigma> t \<noteq> p) ts False"
| "smt_eval \<sigma> (SEq a b) = (smt_eval \<sigma> a = smt_eval \<sigma> b)"
| "smt_eval \<sigma> (SDistinct a b) = (smt_eval \<sigma> a \<noteq> smt_eval \<sigma> b)"

fun command_true :: "(string \<Rightarrow> bool) \<Rightarrow> smt_command \<Rightarrow> bool" where
  "command_true \<sigma> (Assert t) = smt_eval \<sigma> t"

definition smt_true :: "(string \<Rightarrow> bool) \<Rightarrow> smt_command list \<Rightarrow> bool" where
  "smt_true \<sigma> cs = list_all (command_true \<sigma>) cs"

definition smt_and :: "smt_term list \<Rightarrow> smt_term" where
  "smt_and formulae = SAnd formulae"

definition smt_xor :: "smt_term list \<Rightarrow> smt_term" where
  "smt_xor formulae = SXor formulae"

definition smt_not :: "smt_term \<Rightarrow> smt_term" where
  "smt_not formula = SNot formula"

definition smt_carry :: "string \<Rightarrow> string \<Rightarrow> string \<Rightarrow> smt_term" where
  "smt_carry x y previous_carry =
     SOr [SAnd [SVar x, SVar y], SAnd [SVar x, SVar previous_carry], SAnd [SVar y, SVar previous_carry]]"

definition smt_equivalent :: "smt_term \<Rightarrow> smt_term \<Rightarrow> smt_term" where
  "smt_equivalent a b = SEq a b"

definition smt_distinct :: "string \<Rightarrow> string \<Rightarrow> smt_term" where
  "smt_distinct a b = SDistinct (SVar a) (SVar b)"

definition smt_assert :: "smt_term \<Rightarrow> smt_command" where
  "smt_assert formula = Assert formula"

section \<open>Modular addition: CMS, SAT and SMT (modadd_component.py)\<close>

definition cms_modadd :: "string list \<Rightarrow> string list \<Rightarrow> string list \<Rightarrow> string list \<Rightarrow> error + clause list" where
  "cms_modadd output_ids input0_ids input1_ids carry_ids =
     (let carries = concat (map (\<lambda>(carry_id, input0_id, input1_id, previous_carry_id).
                                   cnf_carry carry_id input0_id input1_id previous_carry_id)
                            (zip carry_ids (zip (tl input0_ids) (zip (tl input1_ids) (tl carry_ids)))))
      in ebind (py_last carry_ids) (\<lambda>last_carry.
         ebind (py_last input0_ids) (\<lambda>last0.
         ebind (py_last input1_ids) (\<lambda>last1.
         let results = map (\<lambda>(output_id, input0_id, input1_id, carry_id).
                              XorClause [Neg output_id, Pos input0_id, Pos input1_id, Pos carry_id])
                           (zip output_ids (zip input0_ids (zip input1_ids carry_ids)))
         in ebind (py_last output_ids) (\<lambda>last_out.
            Inr (carries @ cnf_and last_carry [last0, last1] @ results
                 @ [XorClause [Neg last_out, Pos last0, Pos last1]]))))))"

definition cms_modadd_seq :: "string list list \<Rightarrow> string list list \<Rightarrow> string list list \<Rightarrow> error + clause list" where
  "cms_modadd_seq outputs_ids inputs_ids carries_ids =
     ebind (py_get outputs_ids 0) (\<lambda>o0. ebind (py_get inputs_ids 0) (\<lambda>i0.
     ebind (py_get inputs_ids 1) (\<lambda>i1. ebind (py_get carries_ids 0) (\<lambda>c0.
     ebind (cms_modadd o0 i0 i1 c0) (\<lambda>constraints.
     ebind (emap (\<lambda>i. ebind (py_get outputs_ids (int i)) (\<lambda>oi.
                       ebind (py_get outputs_ids (int i - 1)) (\<lambda>op.
                       ebind (py_get inputs_ids (int i + 1)) (\<lambda>ii.
                       ebind (py_get carries_ids (int i)) (\<lambda>ci. cms_modadd oi op ii ci)))))
                 [1..<length outputs_ids])
       (\<lambda>rest. Inr (constraints @ concat rest)))))))"

definition sat_modadd ::
  "string list \<Rightarrow> string list \<Rightarrow> string list \<Rightarrow> string list \<Rightarrow> string list \<Rightarrow> error + clause list" where
  "sat_modadd output_ids input0_ids input1_ids carry_ids intermediate_ids =
     (let carries = concat (map (\<lambda>(carry_id, input0_id, input1_id, previous_carry_id).
                                   cnf_carry carry_id input0_id input1_id previous_carry_id)
                            (zip carry_ids (zip (tl input0_ids) (zip (tl input1_ids) (tl carry_ids)))))
      in ebind (py_last carry_ids) (\<lambda>last_carry.
         ebind (py_last input0_ids) (\<lambda>last0.
         ebind (py_last input1_ids) (\<lambda>last1.
         let results = concat (map (\<lambda>(output_id, input0_id, input1_id, carry_id, intermediate_id).
                                      cnf_result output_id input0_id input1_id carry_id intermediate_id)
                           (zip output_ids (zip input0_ids (zip input1_ids (zip carry_ids intermediate_ids)))))
         in ebind (py_last output_ids) (\<lambda>last_out.
            Inr (carries @ cnf_and last_carry [last0, last1] @ results
                 @ cnf_xor last_out [last0, last1]))))))"

definition sat_modadd_seq ::
  "string list list \<Rightarrow> string list list \<Rightarrow> string list list \<Rightarrow> string list list \<Rightarrow> error + clause list" where
  "sat_modadd_seq outputs_ids inputs_ids carries_ids intermediates_ids =
     ebind (py_get outputs_ids 0) (\<lambda>o0. ebind (py_get inputs_ids 0) (\<lambda>i0.
     ebind (py_get inputs_ids 1) (\<lambda>i1. ebind (py_get carries_ids 0) (\<lambda>c0.
     ebind (py_get intermediates_ids 0) (\<lambda>m0.
     ebind (sat_modadd o0 i0 i1 c0 m0) (\<lambda>constraints.
     ebind (emap (\<lambda>i. ebind (py_get outputs_ids (int i)) (\<lambda>oi.
                       ebind (py_get outputs_ids (int i - 1)) (\<lambda>op.
                       ebind (py_get inputs_ids (int i + 1)) (\<lambda>ii.
                       ebind (py_get carries_ids (int i)) (\<lambda>ci.
                       ebind (py_get intermediates_ids (int i)) (\<lambda>mi. sat_modadd oi op ii ci mi))))))
                 [1..<length outputs_ids])
       (\<lambda>rest. Inr (constraints @ concat rest))))))))"

definition smt_modadd :: "string list \<Rightarrow> string list \<Rightarrow> string list \<Rightarrow> string list \<Rightarrow> error + smt_command list" where
  "smt_modadd output_ids input0_ids input1_ids carry_ids =
     (let carries = map (\<lambda>(carry_id, input0_id, input1_id, previous_carry_id).
                           smt_assert (smt_equivalent (SVar carry_id)
                                         (smt_carry input0_id input1_id previous_carry_id)))
                        (zip carry_ids (zip (tl input0_ids) (zip (tl input1_ids) (tl carry_ids))))
      in ebind (py_last input0_ids) (\<lambda>last0.
         ebind (py_last input1_ids) (\<lambda>last1.
         ebind (py_last carry_ids) (\<lambda>last_carry.
         let results = map (\<lambda>(output_id, input0_id, input1_id, carry_id).
                              smt_assert (smt_equivalent (SVar output_id)
                                            (smt_xor [SVar input0_id, SVar input1_id, SVar carry_id])))
                           (zip output_ids (zip input0_ids (zip input1_ids carry_ids)))
         in ebind (py_last output_ids) (\<lambda>last_out.
            Inr (carries
                 @ [smt_assert (smt_equivalent (SVar last_carry) (smt_and [SVar last0, SVar last1]))]
                 @ results
                 @ [smt_assert (smt_equivalent (SVar last_out) (smt_xor [SVar last0, SVar last1]))]))))))"

definition smt_modadd_seq :: "string list list \<Rightarrow> string list list \<Rightarrow> string list list \<Rightarrow> error + smt_command list" where
  "smt_modadd_seq outputs_ids inputs_ids carries_ids =
     ebind (py_get outputs_ids 0) (\<lambda>o0. ebind (py_get inputs_ids 0) (\<lambda>i0.
     ebind (py_get inputs_ids 1) (\<lambda>i1. ebind (py_get carries_ids 0) (\<lambda>c0.
     ebind (smt_modadd o0 i0 i1 c0) (\<lambda>constraints.
     ebind (emap (\<lambda>i. ebind (py_get outputs_ids (int i)) (\<lambda>oi.
                       ebind (py_get outputs_ids (int i - 1)) (\<lambda>op.
                       ebind (py_get inputs_ids (int i + 1)) (\<lambda>ii.
                       ebind (py_get carries_ids (int i)) (\<lambda>ci. smt_modadd oi op ii ci)))))
                 [1..<length outputs_ids])
       (\<lambda>rest. Inr (constraints @ concat rest)))))))"

text \<open>
  The methods of \<^verbatim>\<open>MODADD\<close>. Each one is a function of the identifier lists that
  \<^verbatim>\<open>_generate_input_ids\<close> and \<^verbatim>\<open>_generate_output_ids\<close> return and of the operand count.
\<close>

definition modadd_inputs_ids :: "string list \<Rightarrow> nat \<Rightarrow> nat \<Rightarrow> string list list" where
  \<comment> \<open>\<^verbatim>\<open>[input_ids[i * output_len: (i + 1) * output_len] for i in range(num_of_addenda)]\<close>\<close>
  "modadd_inputs_ids input_ids output_len num_of_addenda =
     map (\<lambda>i. take output_len (drop (i * output_len) input_ids)) [0..<num_of_addenda]"

definition modadd_carries_ids :: "string list \<Rightarrow> nat \<Rightarrow> string list list" where
  "modadd_carries_ids output_ids num_of_addenda =
     map (\<lambda>i. map (\<lambda>output_id. ''carry_'' @ pad3 i @ ''_'' @ output_id) (butlast output_ids))
         [0..<num_of_addenda - 1]"

definition modadd_intermediates_ids :: "string list \<Rightarrow> nat \<Rightarrow> string list list" where
  "modadd_intermediates_ids output_ids num_of_addenda =
     map (\<lambda>i. map (\<lambda>output_id. ''modadd_intermediate_'' @ pad3 i @ ''_'' @ output_id) output_ids)
         [0..<num_of_addenda - 1]"

definition modadd_outputs_ids :: "string list \<Rightarrow> nat \<Rightarrow> string list list" where
  "modadd_outputs_ids output_ids num_of_addenda =
     map (\<lambda>i. map (\<lambda>output_id. ''modadd_output_'' @ pad3 i @ ''_'' @ output_id) output_ids)
         [0..<num_of_addenda - 2] @ [output_ids]"

definition MODADD_cms_constraints_ids ::
  "string list \<Rightarrow> nat \<Rightarrow> string list \<Rightarrow> nat \<Rightarrow> error + (string list \<times> clause list)" where
  "MODADD_cms_constraints_ids input_ids output_len output_ids num_of_addenda =
     (let inputs_ids = modadd_inputs_ids input_ids output_len num_of_addenda;
          carries_ids = modadd_carries_ids output_ids num_of_addenda;
          outputs_ids = modadd_outputs_ids output_ids num_of_addenda
      in ebind (cms_modadd_seq outputs_ids inputs_ids carries_ids) (\<lambda>constraints.
           Inr (concat carries_ids @ concat outputs_ids, constraints)))"

definition MODADD_sat_constraints_ids ::
  "string list \<Rightarrow> nat \<Rightarrow> string list \<Rightarrow> nat \<Rightarrow> error + (string list \<times> clause list)" where
  "MODADD_sat_constraints_ids input_ids output_len output_ids num_of_addenda =
     (let inputs_ids = modadd_inputs_ids input_ids output_len num_of_addenda;
          carries_ids = modadd_carries_ids output_ids num_of_addenda;
          intermediates_ids = modadd_intermediates_ids output_ids num_of_addenda;
          outputs_ids = modadd_outputs_ids output_ids num_of_addenda
      in ebind (sat_modadd_seq outputs_ids inputs_ids carries_ids intermediates_ids) (\<lambda>constraints.
           Inr (concat carries_ids @ concat intermediates_ids @ concat outputs_ids, constraints)))"

definition MODADD_smt_constraints_ids ::
  "string list \<Rightarrow> nat \<Rightarrow> string list \<Rightarrow> nat \<Rightarrow> error + (string list \<times> smt_command list)" where
  "MODADD_smt_constraints_ids input_ids output_len output_ids num_of_addenda =
     (let inputs_ids = modadd_inputs_ids input_ids output_len num_of_addenda;
          carries_ids = modadd_carries_ids output_ids num_of_addenda;
          outputs_ids = modadd_outputs_ids output_ids num_of_addenda
      in ebind (smt_modadd_seq outputs_ids inputs_ids carries_ids) (\<lambda>constraints.
           Inr (concat carries_ids @ concat outputs_ids, constraints)))"

definition MODADD_cms_constraints :: "component \<Rightarrow> error + (string list \<times> clause list)" where
  "MODADD_cms_constraints self =
     MODADD_cms_constraints_ids (snd (generate_input_ids self)) (fst (generate_output_ids self))
       (snd (generate_output_ids self)) (description_1 self)"

definition MODADD_sat_constraints :: "component \<Rightarrow> error + (string list \<times> clause list)" where
  "MODADD_sat_constraints self =
     MODADD_sat_constraints_ids (snd (generate_input_ids self)) (fst (generate_output_ids self))
       (snd (generate_output_ids self)) (description_1 self)"

definition MODADD_smt_constraints :: "component \<Rightarrow> error + (string list \<times> smt_command list)" where
  "MODADD_smt_constraints self =
     MODADD_smt_constraints_ids (snd (generate_input_ids self)) (fst (generate_output_ids self))
       (snd (generate_output_ids self)) (description_1 self)"

section \<open>Modular subtraction: CMS, SAT and SMT (modsub_component.py)\<close>

definition two_complement_sat_constraints :: "string list \<Rightarrow> string list \<Rightarrow> error + (string list \<times> clause list)" where
  "two_complement_sat_constraints twocomp_result_ids input_ids =
     (let twocomp_carry_ids = map (\<lambda>input_id. ''twocomp_carry_'' @ input_id) (butlast input_ids);
          carries = concat (map (\<lambda>(carry_id, input_id, previous_carry_id).
                                   cnf_carry_comp2 carry_id input_id previous_carry_id)
                            (zip twocomp_carry_ids (zip (tl input_ids) (tl twocomp_carry_ids))))
      in ebind (py_last twocomp_carry_ids) (\<lambda>last_carry.
         ebind (py_last input_ids) (\<lambda>last_input.
         let results = concat (map (\<lambda>(result_id, input_id, carry_id).
                                      cnf_result_comp2 result_id input_id carry_id)
                               (zip twocomp_result_ids (zip input_ids twocomp_carry_ids)))
         in ebind (py_last twocomp_result_ids) (\<lambda>last_result.
            Inr (twocomp_carry_ids,
                 carries @ cnf_inequality last_carry last_input @ results
                 @ cnf_equivalent [last_result, last_input])))))"

definition MODSUB_cms_constraints_ids :: "string list \<Rightarrow> nat \<Rightarrow> string list \<Rightarrow> error + (string list \<times> clause list)" where
  "MODSUB_cms_constraints_ids input_ids output_len output_ids =
     (let input1_ids = drop output_len input_ids;
          twocomp_result_ids = map (\<lambda>input_id. ''twocomp_result_'' @ input_id) input1_ids
      in ebind (two_complement_sat_constraints twocomp_result_ids input1_ids) (\<lambda>(twocomp_carry_ids, constraints).
         let carry_ids = map (\<lambda>output_id. ''carry_'' @ output_id) (butlast output_ids)
         in ebind (cms_modadd output_ids (take output_len input_ids) twocomp_result_ids carry_ids) (\<lambda>addition.
            Inr (twocomp_carry_ids @ twocomp_result_ids @ carry_ids @ output_ids, constraints @ addition))))"

definition MODSUB_sat_constraints_ids :: "string list \<Rightarrow> nat \<Rightarrow> string list \<Rightarrow> error + (string list \<times> clause list)" where
  "MODSUB_sat_constraints_ids input_ids output_len output_ids =
     (let input1_ids = drop output_len input_ids;
          twocomp_result_ids = map (\<lambda>input_id. ''twocomp_result_'' @ input_id) input1_ids
      in ebind (two_complement_sat_constraints twocomp_result_ids input1_ids) (\<lambda>(twocomp_carry_ids, constraints).
         let carry_ids = map (\<lambda>output_id. ''carry_'' @ output_id) (butlast output_ids);
             intermediate_ids = map (\<lambda>output_id. ''intermediate_'' @ output_id) output_ids
         in ebind (sat_modadd output_ids (take output_len input_ids) twocomp_result_ids carry_ids intermediate_ids)
              (\<lambda>addition.
                 Inr (twocomp_carry_ids @ twocomp_result_ids @ carry_ids @ intermediate_ids @ output_ids,
                      constraints @ addition))))"

definition MODSUB_smt_constraints_ids ::
  "string list \<Rightarrow> nat \<Rightarrow> string list \<Rightarrow> error + (string list \<times> smt_command list)" where
  "MODSUB_smt_constraints_ids input_ids output_len output_ids =
     (let input1_ids = drop output_len input_ids;
          twocomp_carry_ids = map (\<lambda>input_id. ''twocomp_carry_'' @ input_id) (butlast input1_ids);
          twocomp_result_ids = map (\<lambda>input_id. ''twocomp_result_'' @ input_id) input1_ids;
          carry_ids = map (\<lambda>output_id. ''carry_'' @ output_id) (butlast output_ids);
          carries = map (\<lambda>(carry_id, input_id, previous_carry_id).
                           smt_assert (smt_equivalent (SVar carry_id)
                                         (smt_and [smt_not (SVar input_id), SVar previous_carry_id])))
                        (zip twocomp_carry_ids (zip (tl input1_ids) (tl twocomp_carry_ids)))
      in ebind (py_last twocomp_carry_ids) (\<lambda>last_carry.
         ebind (py_last input1_ids) (\<lambda>last_input.
         let results = map (\<lambda>(result_id, input_id, carry_id).
                              smt_assert (smt_equivalent (SVar result_id)
                                            (smt_xor [smt_not (SVar input_id), SVar carry_id])))
                           (zip twocomp_result_ids (zip input1_ids twocomp_carry_ids))
         in ebind (py_last twocomp_result_ids) (\<lambda>last_result.
            ebind (smt_modadd output_ids (take output_len input_ids) twocomp_result_ids carry_ids) (\<lambda>addition.
              Inr (twocomp_carry_ids @ twocomp_result_ids @ carry_ids @ output_ids,
                   carries @ [smt_assert (smt_distinct last_carry last_input)] @ results
                   @ [smt_assert (smt_equivalent (SVar last_result) (SVar last_input))]
                   @ addition))))))"

definition MODSUB_cms_constraints :: "component \<Rightarrow> error + (string list \<times> clause list)" where
  "MODSUB_cms_constraints self =
     MODSUB_cms_constraints_ids (snd (generate_input_ids self)) (fst (generate_output_ids self))
       (snd (generate_output_ids self))"

definition MODSUB_sat_constraints :: "component \<Rightarrow> error + (string list \<times> clause list)" where
  "MODSUB_sat_constraints self =
     MODSUB_sat_constraints_ids (snd (generate_input_ids self)) (fst (generate_output_ids self))
       (snd (generate_output_ids self))"

definition MODSUB_smt_constraints :: "component \<Rightarrow> error + (string list \<times> smt_command list)" where
  "MODSUB_smt_constraints self =
     MODSUB_smt_constraints_ids (snd (generate_input_ids self)) (fst (generate_output_ids self))
       (snd (generate_output_ids self))"

section \<open>OR component: SAT (or_component.py)\<close>

definition py_stride :: "'a list \<Rightarrow> nat \<Rightarrow> nat \<Rightarrow> 'a list" where
  \<comment> \<open>\<^verbatim>\<open>xs[i::n]\<close> for a positive step \<open>n\<close>\<close>
  "py_stride xs i n = map ((!) xs) (filter (\<lambda>j. i \<le> j \<and> (j - i) mod n = 0) [0..<length xs])"

definition OR_sat_constraints_ids ::
  "string list \<Rightarrow> nat \<Rightarrow> string list \<Rightarrow> nat \<Rightarrow> error + (string list \<times> clause list)" where
  "OR_sat_constraints_ids input_bit_ids output_bit_len output_bit_ids num_operands =
     (let number_of_intermediates = num_operands - 2
      in ebind (emap (\<lambda>i.
                  ebind (emap (\<lambda>j. ebind (py_get output_bit_ids (int i)) (\<lambda>output_bit_id.
                                      Inr (''int_'' @ pad3 j @ ''_'' @ output_bit_id)))
                              [0..<number_of_intermediates]) (\<lambda>intermediate_ids.
                  ebind (py_get output_bit_ids (int i)) (\<lambda>output_bit_id.
                  ebind (py_list_plus_str intermediate_ids output_bit_id) (\<lambda>results.
                  cnf_or_seq results (py_stride input_bit_ids i output_bit_len)))))
                [0..<output_bit_len])
           (\<lambda>constraints. Inr (output_bit_ids, concat constraints)))"

definition OR_sat_constraints :: "component \<Rightarrow> error + (string list \<times> clause list)" where
  "OR_sat_constraints self =
     OR_sat_constraints_ids (snd (generate_input_ids self)) (fst (generate_output_ids self))
       (snd (generate_output_ids self)) (description_1 self)"

section \<open>Constraint programming (CP) output\<close>

text \<open>
  The CP encoders assemble MiniZinc text. An element \<^verbatim>\<open>name[i]\<close> is \<open>CRef name i\<close>, a
  statement \<^verbatim>\<open>constraint l = r;\<close> is \<open>CEq l r\<close>, \<^verbatim>\<open>constraint modadd(a, b, c);\<close> is
  \<open>CModadd a b c\<close>, and \<^verbatim>\<open>array[lo..hi] of var 0..1: name;\<close> is \<open>DArray lo hi name\<close>.
\<close>

datatype cp_expr =
    CRef string int
  | CNum int
  | CAdd cp_expr cp_expr
  | CMul cp_expr cp_expr
  | CMod cp_expr int

datatype cp_constraint = CEq cp_expr cp_expr | CModadd string string string

datatype cp_declaration = DArray int int string | DConstArray int int string "int list"

fun cp_eval :: "(string \<Rightarrow> int \<Rightarrow> int) \<Rightarrow> cp_expr \<Rightarrow> int" where
  "cp_eval \<rho> (CRef name i) = \<rho> name i"
| "cp_eval \<rho> (CNum n) = n"
| "cp_eval \<rho> (CAdd a b) = cp_eval \<rho> a + cp_eval \<rho> b"
| "cp_eval \<rho> (CMul a b) = cp_eval \<rho> a * cp_eval \<rho> b"
| "cp_eval \<rho> (CMod a m) = cp_eval \<rho> a mod m"

definition cp_twoterms ::
  "string \<Rightarrow> string \<Rightarrow> string \<Rightarrow> nat \<Rightarrow> cp_constraint list \<Rightarrow> cp_declaration list
     \<Rightarrow> cp_declaration list \<times> cp_constraint list" where
  \<comment> \<open>\<^verbatim>\<open>cp_twoterms\<close> of modadd_component.py\<close>
  "cp_twoterms input_1 input_2 out input_length cp_constraints cp_declarations =
     (let last = int input_length - 1;
          carry = ''carry_'' @ out
      in (cp_declarations @ [DArray 1 last carry],
          cp_constraints
          @ map (\<lambda>i. CEq (CRef carry (int i))
                        (CMod (CAdd (CAdd (CMul (CRef input_1 (int i)) (CRef input_2 (int i)))
                                          (CMul (CRef input_1 (int i)) (CRef carry (int i + 1))))
                                    (CMul (CRef carry (int i + 1)) (CRef input_2 (int i)))) 2))
                [1..<input_length - 1]
          @ [CEq (CRef carry last) (CMod (CMul (CRef input_1 last) (CRef input_2 last)) 2)]
          @ map (\<lambda>i. CEq (CRef out (int i))
                        (CMod (CAdd (CAdd (CRef input_1 (int i)) (CRef input_2 (int i)))
                                    (CRef carry (int i + 1))) 2))
                [0..<input_length - 1]
          @ [CEq (CRef out last) (CMod (CAdd (CRef input_1 last) (CRef input_2 last)) 2)]))"

definition cp_all_inputs :: "string list \<Rightarrow> nat list list \<Rightarrow> cp_expr list" where
  \<comment> \<open>the list \<^verbatim>\<open>all_inputs\<close> of \<^verbatim>\<open>MODADD.cp_constraints\<close>, entries \<^verbatim>\<open>{id_link}[{position}]\<close>\<close>
  "cp_all_inputs id_links positions =
     concat (map (\<lambda>(id_link, bit_positions). map (\<lambda>position. CRef id_link (int position)) bit_positions)
                 (zip id_links positions))"

definition pre_name :: "string \<Rightarrow> int \<Rightarrow> string" where
  \<comment> \<open>\<^verbatim>\<open>pre_{output_id_link}_{i}\<close>\<close>
  "pre_name output_id_link i = ''pre_'' @ output_id_link @ ''_'' @ str_int i"

fun cp_twoterms_loop ::
  "string \<Rightarrow> nat \<Rightarrow> nat \<Rightarrow> nat list \<Rightarrow> cp_declaration list \<times> cp_constraint list
     \<Rightarrow> cp_declaration list \<times> cp_constraint list" where
  \<comment> \<open>\<^verbatim>\<open>for i in range(num_add - 2): cp_twoterms(pre_{num_add - 1}, pre_{i + 1}, pre_{num_add + i}, ...)\<close>\<close>
  "cp_twoterms_loop output_id_link num_add output_size [] acc = acc"
| "cp_twoterms_loop output_id_link num_add output_size (i # rest) acc =
     cp_twoterms_loop output_id_link num_add output_size rest
       (cp_twoterms (pre_name output_id_link (int num_add - 1)) (pre_name output_id_link (int i + 1))
          (pre_name output_id_link (int num_add + int i)) output_size (snd acc) (fst acc))"

definition MODADD_cp_constraints :: "component \<Rightarrow> error + (cp_declaration list \<times> cp_constraint list)" where
  "MODADD_cp_constraints self =
     (let output_size = output_bit_size self;
          output_id_link = comp_id self;
          num_add = description_1 self;
          all_inputs = cp_all_inputs (input_id_links self) (input_bit_positions self)
      in if num_add = 0 then Inl ZeroDivisionError
         else
           let input_len = length all_inputs div num_add;
               cp_declarations =
                 map (\<lambda>i. DArray 0 (int input_len - 1) (pre_name output_id_link (int i))) [0..<num_add];
               cp_constraints =
                 concat (map (\<lambda>i. map (\<lambda>j. CEq (CRef (pre_name output_id_link (int i)) (int j))
                                                (all_inputs ! (i * input_len + j)))
                                       [0..<input_len]) [0..<num_add]);
               cp_declarations2 = cp_declarations
                 @ map (\<lambda>i. DArray 0 (int input_len - 1) (pre_name output_id_link (int i)))
                       [num_add..<2 * num_add - 2];
               (cp_declarations3, cp_constraints3) =
                 cp_twoterms_loop output_id_link num_add output_size [0..<num_add - 2]
                   (cp_declarations2, cp_constraints)
           in Inr (cp_twoterms (pre_name output_id_link (2 * int num_add - 3)) (pre_name output_id_link 0)
                     output_id_link output_size cp_constraints3 cp_declarations3))"

definition modsub_cp_twoterms ::
  "string \<Rightarrow> string \<Rightarrow> string \<Rightarrow> string \<Rightarrow> nat \<Rightarrow> cp_constraint list \<Rightarrow> cp_declaration list
     \<Rightarrow> cp_declaration list \<times> cp_constraint list" where
  \<comment> \<open>\<^verbatim>\<open>cp_twoterms\<close> of modsub_component.py: \<open>out = input_1 - input_2\<close> by the model's \<^verbatim>\<open>modadd\<close>\<close>
  "modsub_cp_twoterms input_1 input_2 out component_name input_length cp_constraints cp_declarations =
     (cp_declarations @ [DArray 0 (int input_length - 1) (''pre_minus_'' @ input_2),
                         DArray 0 (int input_length - 1) (''minus_'' @ input_2)],
      cp_constraints
      @ map (\<lambda>i. CEq (CRef (''pre_minus_'' @ input_2) (int i))
                    (CMod (CAdd (CRef input_2 (int i)) (CNum 1)) 2))
            [0..<input_length]
      @ [CModadd (''pre_minus_'' @ input_2) (''constant_'' @ component_name) (''minus_'' @ input_2),
         CModadd input_1 (''minus_'' @ input_2) out])"

definition temp_name :: "string \<Rightarrow> int \<Rightarrow> string" where
  \<comment> \<open>\<^verbatim>\<open>temp_{output_id_link}_{i}\<close>\<close>
  "temp_name output_id_link i = ''temp_'' @ output_id_link @ ''_'' @ str_int i"

fun modsub_cp_loop ::
  "string \<Rightarrow> nat \<Rightarrow> nat \<Rightarrow> nat list \<Rightarrow> cp_declaration list \<times> cp_constraint list
     \<Rightarrow> cp_declaration list \<times> cp_constraint list" where
  \<comment> \<open>the body of \<^verbatim>\<open>for i in range(1, num_add - 2)\<close> in \<^verbatim>\<open>MODSUB.cp_constraints\<close>: both calls of
      \<^verbatim>\<open>cp_twoterms\<close> are indented under the \<^verbatim>\<open>for\<close>\<close>
  "modsub_cp_loop output_id_link num_add output_size [] acc = acc"
| "modsub_cp_loop output_id_link num_add output_size (i # rest) acc =
     (let acc1 = modsub_cp_twoterms (pre_name output_id_link (int i + 1)) (temp_name output_id_link (int i - 1))
                   (temp_name output_id_link (int i)) output_id_link output_size (snd acc) (fst acc);
          acc2 = modsub_cp_twoterms (pre_name output_id_link (int num_add - 1))
                   (temp_name output_id_link (int num_add - 3))
                   output_id_link output_id_link output_size (snd acc1) (fst acc1)
      in modsub_cp_loop output_id_link num_add output_size rest acc2)"

definition modsub_all_inputs :: "string list \<Rightarrow> nat list list \<Rightarrow> error + cp_expr list" where
  \<comment> \<open>the nested loop that fills \<^verbatim>\<open>all_inputs\<close> in \<^verbatim>\<open>MODSUB.cp_constraints\<close>; it indexes
      \<^verbatim>\<open>input_bit_positions[i]\<close> for every link\<close>
  "modsub_all_inputs input_id_link bit_positions =
     ebind (emap (\<lambda>i. ebind (py_get bit_positions (int i)) (\<lambda>positions.
                         Inr (map (\<lambda>position. CRef (input_id_link ! i) (int position)) positions)))
                 [0..<length input_id_link])
       (\<lambda>chunks. Inr (concat chunks))"

definition MODSUB_cp_constraints :: "component \<Rightarrow> error + (cp_declaration list \<times> cp_constraint list)" where
  "MODSUB_cp_constraints self =
     (let output_size = output_bit_size self;
          output_id_link = comp_id self;
          num_add = description_1 self
      in ebind (modsub_all_inputs (input_id_links self) (input_bit_positions self)) (\<lambda>all_inputs.
         if num_add = 0 then Inl ZeroDivisionError
         else
           let input_len = length all_inputs div num_add;
               cp_declarations =
                 [DConstArray 0 (int output_size - 1) (''constant_'' @ output_id_link)
                    (replicate (output_size - 1) 0 @ [1]),
                  DArray 0 (int output_size - 1) output_id_link]
                 @ map (\<lambda>i. DArray 0 (int input_len - 1) (pre_name output_id_link (int i))) [0..<num_add]
                 @ map (\<lambda>i. DArray 0 (int output_size - 1) (temp_name output_id_link (int i)))
                       [0..<num_add - 2];
               cp_constraints =
                 concat (map (\<lambda>i. map (\<lambda>j. CEq (CRef (pre_name output_id_link (int i)) (int j))
                                                (all_inputs ! (i * input_len + j)))
                                       [0..<input_len]) [0..<num_add])
           in if num_add = 2 then
                Inr (modsub_cp_twoterms (pre_name output_id_link 0) (pre_name output_id_link 1)
                       output_id_link output_id_link output_size cp_constraints cp_declarations)
              else if num_add > 2 then
                Inr (modsub_cp_loop output_id_link num_add output_size [1..<num_add - 2]
                       (modsub_cp_twoterms (pre_name output_id_link 0) (pre_name output_id_link 1)
                          (temp_name output_id_link 0) output_id_link output_size
                          cp_constraints cp_declarations))
              else Inr (cp_declarations, cp_constraints)))"

section \<open>Polynomials over GF(2)\<close>

text \<open>
  Elements of the Boolean polynomial ring \<^verbatim>\<open>model.ring()\<close> as expressions; \<open>PVar v\<close> is
  \<^verbatim>\<open>ring_R(v)\<close>. A polynomial of the returned list is read as the equation \<open>p = 0\<close>.
\<close>

datatype poly = PVar string | PZero | POne | PAdd poly poly | PMul poly poly

fun poly_eval :: "(string \<Rightarrow> bool) \<Rightarrow> poly \<Rightarrow> bool" where
  "poly_eval \<sigma> (PVar v) = \<sigma> v"
| "poly_eval \<sigma> PZero = False"
| "poly_eval \<sigma> POne = True"
| "poly_eval \<sigma> (PAdd p q) = (poly_eval \<sigma> p \<noteq> poly_eval \<sigma> q)"
| "poly_eval \<sigma> (PMul p q) = (poly_eval \<sigma> p \<and> poly_eval \<sigma> q)"

definition common_zero :: "(string \<Rightarrow> bool) \<Rightarrow> poly list \<Rightarrow> bool" where
  "common_zero \<sigma> ps = list_all (\<lambda>p. \<not> poly_eval \<sigma> p) ps"

definition maj :: "poly \<Rightarrow> poly \<Rightarrow> poly \<Rightarrow> poly" where
  \<comment> \<open>\<^verbatim>\<open>def maj(xi, yi, zi): return xi * yi + xi * zi + yi * zi\<close>\<close>
  "maj xi yi zi = PAdd (PAdd (PMul xi yi) (PMul xi zi)) (PMul yi zi)"

definition modadd_stage_polynomials ::
  "poly list \<Rightarrow> poly list \<Rightarrow> poly list \<Rightarrow> poly list \<Rightarrow> nat \<Rightarrow> error + poly list" where
  \<comment> \<open>the body of \<^verbatim>\<open>for n in range(nadditions)\<close> once \<open>x\<close>, \<open>y\<close>, \<open>z\<close>, \<open>c\<close> are chosen\<close>
  "modadd_stage_polynomials x y z c word_size =
     ebind (py_get c 0) (\<lambda>c0.
     ebind (py_get x 0) (\<lambda>x0. ebind (py_get y 0) (\<lambda>y0. ebind (py_get z 0) (\<lambda>z0.
     ebind (emap (\<lambda>i. ebind (py_get c (int i)) (\<lambda>ci.
                       ebind (py_get x (int i - 1)) (\<lambda>xp. ebind (py_get y (int i - 1)) (\<lambda>yp.
                       ebind (py_get c (int i - 1)) (\<lambda>cp.
                       ebind (py_get x (int i)) (\<lambda>xi. ebind (py_get y (int i)) (\<lambda>yi.
                       ebind (py_get z (int i)) (\<lambda>zi.
                         Inr [PAdd ci (maj xp yp cp), PAdd (PAdd (PAdd xi yi) zi) ci]))))))))
                 [1..<word_size])
       (\<lambda>rest. Inr ([PAdd c0 PZero, PAdd (PAdd (PAdd x0 y0) z0) c0] @ concat rest))))))"

definition MODADD_algebraic_polynomials :: "component \<Rightarrow> string \<Rightarrow> string \<Rightarrow> error + poly list" where
  \<comment> \<open>the two strings are \<^verbatim>\<open>model.input_postfix\<close> and \<^verbatim>\<open>model.output_postfix\<close>\<close>
  "MODADD_algebraic_polynomials self input_postfix output_postfix =
     (let component_id = comp_id self;
          ninput_words = description_1 self;
          nadditions = ninput_words - 1;
          ninput_bits = input_bit_size self;
          word_size = output_bit_size self;
          input_vars = map (\<lambda>i. PVar (component_id @ ''_'' @ input_postfix @ str_nat i)) [0..<ninput_bits];
          output_vars = map (\<lambda>i. PVar (component_id @ ''_'' @ output_postfix @ str_nat i)) [0..<word_size];
          carries_vars = map (\<lambda>n. map (\<lambda>i. PVar (component_id @ ''_c'' @ str_nat n @ ''_'' @ str_nat i))
                                       [0..<word_size]) [0..<nadditions];
          aux_outputs_vars = map (\<lambda>n. map (\<lambda>i. PVar (component_id @ ''_o'' @ str_nat n @ ''_'' @ str_nat i))
                                           [0..<word_size]) [0..<nadditions - 1]
      in ebind (emap (\<lambda>n.
                  ebind (if n = 0 then Inr (take word_size input_vars)
                         else py_get aux_outputs_vars (int n - 1)) (\<lambda>x.
                  ebind (if n = nadditions - 1 then Inr output_vars
                         else py_get aux_outputs_vars (int n)) (\<lambda>z.
                  let y = take word_size (drop ((n + 1) * word_size) input_vars)
                  in ebind (py_get carries_vars (int n)) (\<lambda>c.
                       modadd_stage_polynomials x y z c word_size))))
                [0..<nadditions])
           (\<lambda>stages. Inr (concat stages)))"

definition or_polynomial :: "poly \<Rightarrow> poly \<Rightarrow> poly" where
  \<comment> \<open>\<^verbatim>\<open>def or_polynomial(x0, x1): return x0 * x1 + x0 + x1\<close>\<close>
  "or_polynomial x0 x1 = PAdd (PAdd (PMul x0 x1) x0) x1"

fun or_fold_words :: "nat \<Rightarrow> poly list list \<Rightarrow> poly list \<Rightarrow> error + poly list" where
  \<comment> \<open>\<^verbatim>\<open>for word_vars in words_vars: for i in range(noutputs): x[i] = or_polynomial(x[i], word_vars[i])\<close>\<close>
  "or_fold_words noutputs [] x = Inr x"
| "or_fold_words noutputs (word_vars # rest) x =
     ebind (emap (\<lambda>i. ebind (py_get word_vars (int i)) (\<lambda>v. Inr (or_polynomial (x ! i) v)))
                 [0..<noutputs])
       (\<lambda>x'. or_fold_words noutputs rest x')"

definition py_range_step :: "nat \<Rightarrow> nat \<Rightarrow> error + nat list" where
  \<comment> \<open>\<^verbatim>\<open>range(0, stop, step)\<close>; a zero step raises\<close>
  "py_range_step stop step =
     (if step = 0 then Inl ValueError else Inr (filter (\<lambda>i. i mod step = 0) [0..<stop]))"

definition OR_algebraic_polynomials :: "component \<Rightarrow> string \<Rightarrow> string \<Rightarrow> error + poly list" where
  "OR_algebraic_polynomials self input_postfix output_postfix =
     (let ninputs = input_bit_size self;
          noutputs = output_bit_size self;
          word_size = noutputs;
          input_vars = map (\<lambda>i. PVar (comp_id self @ ''_'' @ input_postfix @ str_nat i)) [0..<ninputs];
          output_vars = map (\<lambda>i. comp_id self @ ''_'' @ output_postfix @ str_nat i) [0..<noutputs]
      in ebind (py_range_step ninputs word_size) (\<lambda>starts.
         let words_vars = map (\<lambda>i. take word_size (drop i input_vars)) starts
         in ebind (or_fold_words noutputs words_vars (replicate noutputs POne)) (\<lambda>x.
            let y = map PVar output_vars
            in Inr (map (\<lambda>i. PAdd (y ! i) (x ! i)) [0..<noutputs]))))"

section \<open>Reading the CP text\<close>

fun expr_arrays :: "cp_expr \<Rightarrow> string list" where
  "expr_arrays (CRef name i) = [name]"
| "expr_arrays (CNum n) = []"
| "expr_arrays (CAdd a b) = expr_arrays a @ expr_arrays b"
| "expr_arrays (CMul a b) = expr_arrays a @ expr_arrays b"
| "expr_arrays (CMod a m) = expr_arrays a"

fun constraint_arrays :: "cp_constraint \<Rightarrow> string list" where
  \<comment> \<open>the arrays a constraint statement mentions\<close>
  "constraint_arrays (CEq l r) = expr_arrays l @ expr_arrays r"
| "constraint_arrays (CModadd a b c) = [a, b, c]"

definition cp_word :: "(string \<Rightarrow> int \<Rightarrow> int) \<Rightarrow> string \<Rightarrow> nat \<Rightarrow> int" where
  \<comment> \<open>the integer held by the first \<open>n\<close> elements of a 0/1 array, element 0 the most significant\<close>
  "cp_word \<rho> name n = sum_list (map (\<lambda>i. \<rho> name (int i) * 2 ^ (n - 1 - i)) [0..<n])"

fun cp_holds :: "nat \<Rightarrow> (string \<Rightarrow> int \<Rightarrow> int) \<Rightarrow> cp_constraint \<Rightarrow> bool" where
  \<comment> \<open>Modelled from the spec: the predicate \<^verbatim>\<open>modadd\<close> belongs to the CP model, outside the
      files; it is read as addition modulo \<open>2 ^ n\<close> of \<open>n\<close>-element arrays.\<close>
  "cp_holds n \<rho> (CEq l r) = (cp_eval \<rho> l = cp_eval \<rho> r)"
| "cp_holds n \<rho> (CModadd a b c) = (cp_word \<rho> c n = (cp_word \<rho> a n + cp_word \<rho> b n) mod 2 ^ n)"

section \<open>Words, and what the encodings are compared with\<close>

text \<open>
  A word is a list of bits. \<open>bl_val\<close> reads it with element 0 the most significant bit,
  the order of the CMS, SAT, SMT and CP encoders; \<open>lsb_val\<close> reads it with element 0 the
  least significant bit.
\<close>

definition maj3 :: "bool \<Rightarrow> bool \<Rightarrow> bool \<Rightarrow> bool" where
  "maj3 a b c = ((a \<and> b) \<or> (a \<and> c) \<or> (b \<and> c))"

definition xor3 :: "bool \<Rightarrow> bool \<Rightarrow> bool \<Rightarrow> bool" where
  "xor3 a b c = ((a \<noteq> b) \<noteq> c)"

fun bl_val :: "bool list \<Rightarrow> nat" where
  "bl_val [] = 0"
| "bl_val (b # bs) = of_bool b * 2 ^ length bs + bl_val bs"

definition lsb_val :: "bool list \<Rightarrow> nat" where
  "lsb_val bs = bl_val (rev bs)"

definition word_val :: "('v \<Rightarrow> bool) \<Rightarrow> 'v list \<Rightarrow> nat" where
  "word_val \<sigma> ids = bl_val (map \<sigma> ids)"

definition word_val_lsb :: "('v \<Rightarrow> bool) \<Rightarrow> 'v list \<Rightarrow> nat" where
  "word_val_lsb \<sigma> ids = lsb_val (map \<sigma> ids)"

definition operand :: "'v list \<Rightarrow> nat \<Rightarrow> nat \<Rightarrow> 'v list" where
  \<comment> \<open>the \<open>j\<close>-th word of width \<open>w\<close> of the flat list of input bits\<close>
  "operand input_ids w j = take w (drop (j * w) input_ids)"

definition agree_off :: "'v list \<Rightarrow> ('v \<Rightarrow> bool) \<Rightarrow> ('v \<Rightarrow> bool) \<Rightarrow> bool" where
  \<comment> \<open>two assignments that differ at most on the listed (auxiliary) variables\<close>
  "agree_off aux \<sigma> \<sigma>' = (\<forall>v. v \<notin> set aux \<longrightarrow> \<sigma>' v = \<sigma> v)"

text \<open>The ripple-carry adder on most-significant-first words, as a function.\<close>

fun cout :: "bool list \<Rightarrow> bool list \<Rightarrow> bool" where
  "cout (a # as) (b # bs) = maj3 a b (cout as bs)"
| "cout _ _ = False"

fun sumbits :: "bool list \<Rightarrow> bool list \<Rightarrow> bool list" where
  "sumbits (a # as) (b # bs) = xor3 a b (cout as bs) # sumbits as bs"
| "sumbits _ _ = []"

definition carries :: "bool list \<Rightarrow> bool list \<Rightarrow> bool list" where
  \<comment> \<open>the carry into each position but the least significant one\<close>
  "carries as bs = map (\<lambda>i. cout (drop (Suc i) as) (drop (Suc i) bs)) [0..<length as - 1]"

definition sumbits_lsb :: "bool list \<Rightarrow> bool list \<Rightarrow> bool list" where
  "sumbits_lsb as bs = rev (sumbits (rev as) (rev bs))"

definition carries_lsb :: "bool list \<Rightarrow> bool list \<Rightarrow> bool list" where
  \<comment> \<open>least-significant-first: the carry into every position, \<open>False\<close> into position 0\<close>
  "carries_lsb as bs = map (\<lambda>i. cout (rev (take i as)) (rev (take i bs))) [0..<length as]"

definition twocomp_carries :: "bool list \<Rightarrow> bool list" where
  \<comment> \<open>complementing and adding 1: the carry into position \<open>i\<close> is 1 while all lower bits are 0\<close>
  "twocomp_carries bs = map (\<lambda>i. list_all (\<lambda>b. \<not> b) (drop (Suc i) bs)) [0..<length bs - 1]"

definition twocomp_bits :: "bool list \<Rightarrow> bool list" where
  "twocomp_bits bs = map (\<lambda>i. (\<not> bs ! i) \<noteq> list_all (\<lambda>b. \<not> b) (drop (Suc i) bs)) [0..<length bs]"

text \<open>
  The carry chain of one two-operand addition as relations between the bits of an
  assignment, with the indices of the emitted constraints: \<open>w - 1\<close> carries, the last one
  the AND of the two least significant bits, carry \<open>i\<close> the majority of the operand bits at
  \<open>i + 1\<close> and of carry \<open>i + 1\<close>.
\<close>

definition carry_chain :: "('v \<Rightarrow> bool) \<Rightarrow> 'v list \<Rightarrow> 'v list \<Rightarrow> 'v list \<Rightarrow> 'v list \<Rightarrow> bool" where
  "carry_chain \<sigma> out x y c =
     (let w = length out
      in \<sigma> (c ! (w - 2)) = (\<sigma> (x ! (w - 1)) \<and> \<sigma> (y ! (w - 1)))
         \<and> list_all (\<lambda>i. \<sigma> (c ! i) = maj3 (\<sigma> (x ! (i + 1))) (\<sigma> (y ! (i + 1))) (\<sigma> (c ! (i + 1))))
                     [0..<w - 2]
         \<and> list_all (\<lambda>i. \<sigma> (out ! i) = xor3 (\<sigma> (x ! i)) (\<sigma> (y ! i)) (\<sigma> (c ! i))) [0..<w - 1]
         \<and> \<sigma> (out ! (w - 1)) = (\<sigma> (x ! (w - 1)) \<noteq> \<sigma> (y ! (w - 1))))"

definition intermediate_xors :: "('v \<Rightarrow> bool) \<Rightarrow> 'v list \<Rightarrow> 'v list \<Rightarrow> 'v list \<Rightarrow> bool" where
  \<comment> \<open>the SAT encoding's intermediate variable of bit \<open>i\<close> is the XOR of the two operand bits\<close>
  "intermediate_xors \<sigma> m x y =
     list_all (\<lambda>i. \<sigma> (m ! i) = (\<sigma> (x ! i) \<noteq> \<sigma> (y ! i))) [0..<length x - 1]"

text \<open>
  The carry chain with the indices as the specification words them: carries \<open>c_0 .. c_(w-1)\<close>,
  \<open>c_(w-1)\<close> the AND of the bits at \<open>w - 1\<close>, \<open>c_i\<close> the majority of the bits at \<open>i\<close> and of
  \<open>c_(i+1)\<close>, output bit \<open>i\<close> the XOR of the bits at \<open>i\<close> and of \<open>c_i\<close>. The emitted
  constraints have no variable for \<open>c_(w-1)\<close>; it is read as its defining AND.
\<close>

definition claimed_carry :: "('v \<Rightarrow> bool) \<Rightarrow> 'v list \<Rightarrow> 'v list \<Rightarrow> 'v list \<Rightarrow> nat \<Rightarrow> bool" where
  "claimed_carry \<sigma> x y c i = (if i + 1 = length x then \<sigma> (x ! i) \<and> \<sigma> (y ! i) else \<sigma> (c ! i))"

definition claimed_carry_chain :: "('v \<Rightarrow> bool) \<Rightarrow> 'v list \<Rightarrow> 'v list \<Rightarrow> 'v list \<Rightarrow> 'v list \<Rightarrow> bool" where
  "claimed_carry_chain \<sigma> out x y c =
     (let w = length out
      in list_all (\<lambda>i. claimed_carry \<sigma> x y c i
                         = maj3 (\<sigma> (x ! i)) (\<sigma> (y ! i)) (claimed_carry \<sigma> x y c (i + 1))) [0..<w - 1]
         \<and> list_all (\<lambda>i. \<sigma> (out ! i) = xor3 (\<sigma> (x ! i)) (\<sigma> (y ! i)) (claimed_carry \<sigma> x y c i))
                     [0..<w - 1]
         \<and> \<sigma> (out ! (w - 1)) = (\<sigma> (x ! (w - 1)) \<noteq> \<sigma> (y ! (w - 1))))"

text \<open>
  A chain of two-operand stages: stage 0 combines the first two operand words, stage
  \<open>i > 0\<close> the output of stage \<open>i - 1\<close> and operand \<open>i + 1\<close>.
\<close>

definition chain_left :: "'v list list \<Rightarrow> 'v list list \<Rightarrow> nat \<Rightarrow> 'v list" where
  "chain_left outs ins i = (if i = 0 then ins ! 0 else outs ! (i - 1))"

fun chain_value :: "('b \<Rightarrow> 'b \<Rightarrow> 'b) \<Rightarrow> 'b list \<Rightarrow> nat \<Rightarrow> 'b" where
  "chain_value f vs 0 = f (vs ! 0) (vs ! 1)"
| "chain_value f vs (Suc i) = f (chain_value f vs i) (vs ! (i + 2))"

definition chain_left_value :: "('b \<Rightarrow> 'b \<Rightarrow> 'b) \<Rightarrow> 'b list \<Rightarrow> nat \<Rightarrow> 'b" where
  "chain_left_value f vs i = (if i = 0 then vs ! 0 else chain_value f vs (i - 1))"

definition chain_outs ::
  "(bool list \<Rightarrow> bool list \<Rightarrow> bool list) \<Rightarrow> ('v \<Rightarrow> bool) \<Rightarrow> 'v list list \<Rightarrow> 'v list list \<Rightarrow> bool" where
  \<comment> \<open>every stage output is \<open>f\<close> of its two operand words\<close>
  "chain_outs f \<sigma> outs ins =
     (\<forall>i<length outs. map \<sigma> (outs ! i) = f (map \<sigma> (chain_left outs ins i)) (map \<sigma> (ins ! (i + 1))))"

definition chain_auxs ::
  "(bool list \<Rightarrow> bool list \<Rightarrow> bool list) \<Rightarrow> ('v \<Rightarrow> bool) \<Rightarrow> 'v list list \<Rightarrow> 'v list list \<Rightarrow> 'v list list
     \<Rightarrow> bool" where
  \<comment> \<open>the auxiliary variables of every stage are \<open>g\<close> of its two operand words\<close>
  "chain_auxs g \<sigma> outs ins auxs =
     (\<forall>i<length outs. map \<sigma> (auxs ! i) = g (map \<sigma> (chain_left outs ins i)) (map \<sigma> (ins ! (i + 1))))"

definition upd :: "('v \<Rightarrow> bool) \<Rightarrow> 'v list \<Rightarrow> bool list \<Rightarrow> 'v \<Rightarrow> bool" where
  \<comment> \<open>an assignment changed on the listed variables\<close>
  "upd \<sigma> ks vs = (\<lambda>v. case map_of (zip ks vs) v of Some b \<Rightarrow> b | None \<Rightarrow> \<sigma> v)"

definition chain_bl :: "bool list \<Rightarrow> bool list \<Rightarrow> bool list \<Rightarrow> bool list \<Rightarrow> bool" where
  "chain_bl X Y Out C = (let w = length Out in
      C ! (w - 2) = (X ! (w - 1) \<and> Y ! (w - 1))
    \<and> (\<forall>i. i + 2 < w \<longrightarrow> C ! i = maj3 (X ! (i + 1)) (Y ! (i + 1)) (C ! (i + 1)))
    \<and> (\<forall>i. i + 1 < w \<longrightarrow> Out ! i = xor3 (X ! i) (Y ! i) (C ! i))
    \<and> Out ! (w - 1) = (X ! (w - 1) \<noteq> Y ! (w - 1)))"

definition twocomp_chain :: "('v \<Rightarrow> bool) \<Rightarrow> 'v list \<Rightarrow> 'v list \<Rightarrow> 'v list \<Rightarrow> bool" where
  \<comment> \<open>the relations of the two's-complement chain of modsub_component.py, by index\<close>
  "twocomp_chain \<sigma> res b tc =
     (let w = length b
      in (\<forall>i. i + 2 < w \<longrightarrow> \<sigma> (tc ! i) = (\<not> \<sigma> (b ! (i + 1)) \<and> \<sigma> (tc ! (i + 1))))
         \<and> \<sigma> (tc ! (w - 2)) \<noteq> \<sigma> (b ! (w - 1))
         \<and> (\<forall>i. i + 1 < w \<longrightarrow> \<sigma> (res ! i) = ((\<not> \<sigma> (b ! i)) \<noteq> \<sigma> (tc ! i)))
         \<and> \<sigma> (res ! (w - 1)) = \<sigma> (b ! (w - 1)))"

definition sat_stage :: "string list list \<Rightarrow> string list list \<Rightarrow> string list list \<Rightarrow> string list list \<Rightarrow> nat \<Rightarrow> clause list" where
  \<comment> \<open>the clauses of stage \<open>i\<close> of \<^verbatim>\<open>sat_modadd_seq\<close>, when the stage does not raise\<close>
  "sat_stage outs ins cars ints i =
     projr (sat_modadd (outs ! i) (chain_left outs ins i) (ins ! (i + 1)) (cars ! i) (ints ! i))"

definition operands_sum :: "('v \<Rightarrow> bool) \<Rightarrow> 'v list \<Rightarrow> nat \<Rightarrow> nat \<Rightarrow> nat" where
  \<comment> \<open>the sum of the \<open>k\<close> operand words, each read most significant bit first\<close>
  "operands_sum \<sigma> input_ids w k = (\<Sum>j<k. word_val \<sigma> (operand input_ids w j))"

definition modadd_sat_aux :: "string list \<Rightarrow> nat \<Rightarrow> string list" where
  \<comment> \<open>the identifiers that \<^verbatim>\<open>MODADD.sat_constraints\<close> introduces besides the output bits\<close>
  "modadd_sat_aux output_ids k =
     concat (modadd_carries_ids output_ids k) @ concat (modadd_intermediates_ids output_ids k)
     @ concat (butlast (modadd_outputs_ids output_ids k))"

definition lsb_chain :: "('v \<Rightarrow> bool) \<Rightarrow> 'v list \<Rightarrow> 'v list \<Rightarrow> 'v list \<Rightarrow> 'v list \<Rightarrow> bool" where
  \<comment> \<open>the relations of \<^verbatim>\<open>MODADD.algebraic_polynomials\<close>: carry 0 is zero, carry \<open>i\<close> is the majority of
      the bits at \<open>i - 1\<close>, so index 0 is the least significant bit\<close>
  "lsb_chain \<sigma> z x y c =
     (\<not> \<sigma> (c ! 0) \<and> \<sigma> (z ! 0) = xor3 (\<sigma> (x ! 0)) (\<sigma> (y ! 0)) (\<sigma> (c ! 0))
      \<and> (\<forall>i. 0 < i \<and> i < length z \<longrightarrow>
             \<sigma> (c ! i) = maj3 (\<sigma> (x ! (i - 1))) (\<sigma> (y ! (i - 1))) (\<sigma> (c ! (i - 1)))
             \<and> \<sigma> (z ! i) = xor3 (\<sigma> (x ! i)) (\<sigma> (y ! i)) (\<sigma> (c ! i))))"

definition alg_stage_polys :: "string list \<Rightarrow> string list \<Rightarrow> string list \<Rightarrow> string list \<Rightarrow> nat \<Rightarrow> poly list" where
  \<comment> \<open>the polynomials of one stage, when no index is out of range\<close>
  "alg_stage_polys X Y Z C w =
     [PAdd (PVar (C ! 0)) PZero, PAdd (PAdd (PAdd (PVar (X ! 0)) (PVar (Y ! 0))) (PVar (Z ! 0))) (PVar (C ! 0))]
     @ concat (map (\<lambda>i. [PAdd (PVar (C ! i)) (maj (PVar (X ! (i - 1))) (PVar (Y ! (i - 1))) (PVar (C ! (i - 1)))),
                         PAdd (PAdd (PAdd (PVar (X ! i)) (PVar (Y ! i))) (PVar (Z ! i))) (PVar (C ! i))])
                   [1..<w])"

definition alg_inputs :: "component \<Rightarrow> string \<Rightarrow> string list" where
  \<comment> \<open>the names \<^verbatim>\<open>{component_id}_{input_postfix}{i}\<close>\<close>
  "alg_inputs self input_postfix =
     map (\<lambda>i. comp_id self @ ''_'' @ input_postfix @ str_nat i) [0..<input_bit_size self]"

definition alg_outputs :: "component \<Rightarrow> string \<Rightarrow> string list" where
  "alg_outputs self output_postfix =
     map (\<lambda>i. comp_id self @ ''_'' @ output_postfix @ str_nat i) [0..<output_bit_size self]"

definition alg_carries :: "component \<Rightarrow> string list list" where
  \<comment> \<open>the names \<^verbatim>\<open>{component_id}_c{n}_{i}\<close>, one list per addition\<close>
  "alg_carries self =
     map (\<lambda>n. map (\<lambda>i. comp_id self @ ''_c'' @ str_nat n @ ''_'' @ str_nat i) [0..<output_bit_size self])
         [0..<description_1 self - 1]"

definition alg_aux_outputs :: "component \<Rightarrow> string list list" where
  \<comment> \<open>the names \<^verbatim>\<open>{component_id}_o{n}_{i}\<close>, one list per addition but the last\<close>
  "alg_aux_outputs self =
     map (\<lambda>n. map (\<lambda>i. comp_id self @ ''_o'' @ str_nat n @ ''_'' @ str_nat i) [0..<output_bit_size self])
         [0..<description_1 self - 1 - 1]"

definition alg_aux :: "component \<Rightarrow> string list" where
  "alg_aux self = concat (alg_carries self) @ concat (alg_aux_outputs self)"

definition alg_stage_outs :: "component \<Rightarrow> string \<Rightarrow> string list list" where
  "alg_stage_outs self output_postfix = alg_aux_outputs self @ [alg_outputs self output_postfix]"

definition alg_stage_ins :: "component \<Rightarrow> string \<Rightarrow> string list list" where
  "alg_stage_ins self input_postfix =
     map (operand (alg_inputs self input_postfix) (output_bit_size self)) [0..<description_1 self]"

definition operands_sum_lsb :: "('v \<Rightarrow> bool) \<Rightarrow> 'v list \<Rightarrow> nat \<Rightarrow> nat \<Rightarrow> nat" where
  \<comment> \<open>the sum of the \<open>k\<close> operand words, each read least significant bit first\<close>
  "operands_sum_lsb \<sigma> input_ids w k = (\<Sum>j<k. word_val_lsb \<sigma> (operand input_ids w j))"

definition alg_polys :: "component \<Rightarrow> string \<Rightarrow> string \<Rightarrow> poly list" where
  \<comment> \<open>the list \<^verbatim>\<open>MODADD.algebraic_polynomials\<close> returns when no index is out of range\<close>
  "alg_polys self ip op =
     concat (map (\<lambda>n. alg_stage_polys (chain_left (alg_stage_outs self op) (alg_stage_ins self ip) n)
                         (alg_stage_ins self ip ! (n + 1)) (alg_stage_outs self op ! n)
                         (alg_carries self ! n) (output_bit_size self))
                 [0..<description_1 self - 1])"

definition cp_bits :: "(string \<Rightarrow> int \<Rightarrow> int) \<Rightarrow> bool" where
  \<comment> \<open>every array element is declared \<^verbatim>\<open>var 0..1\<close>\<close>
  "cp_bits \<rho> = (\<forall>name i. \<rho> name i = 0 \<or> \<rho> name i = 1)"

definition cp_sigma :: "(string \<Rightarrow> int \<Rightarrow> int) \<Rightarrow> string \<times> int \<Rightarrow> bool" where
  \<comment> \<open>a 0/1 assignment of array elements as an assignment of bits\<close>
  "cp_sigma \<rho> = (\<lambda>(name, i). \<rho> name i = 1)"

definition cp_array :: "string \<Rightarrow> nat \<Rightarrow> (string \<times> int) list" where
  \<comment> \<open>the elements \<open>name[0] .. name[w - 1]\<close>\<close>
  "cp_array name w = map (\<lambda>i. (name, int i)) [0..<w]"

definition cp_carry_array :: "string \<Rightarrow> nat \<Rightarrow> (string \<times> int) list" where
  \<comment> \<open>the elements \<open>carry_out[1] .. carry_out[w - 1]\<close>\<close>
  "cp_carry_array out w = map (\<lambda>i. (''carry_'' @ out, int i + 1)) [0..<w - 1]"

definition cp_twoterms_constraints :: "string \<Rightarrow> string \<Rightarrow> string \<Rightarrow> nat \<Rightarrow> cp_constraint list" where
  \<comment> \<open>the constraints one call of \<^verbatim>\<open>cp_twoterms\<close> appends\<close>
  "cp_twoterms_constraints input_1 input_2 out w = snd (cp_twoterms input_1 input_2 out w [] [])"

definition cp_input_vars :: "string list \<Rightarrow> nat list list \<Rightarrow> (string \<times> int) list" where
  \<comment> \<open>the array elements that \<^verbatim>\<open>all_inputs\<close> names, in order\<close>
  "cp_input_vars id_links positions =
     concat (map (\<lambda>(id_link, bit_positions). map (\<lambda>position. (id_link, int position)) bit_positions)
                 (zip id_links positions))"

definition cp_copies :: "string \<Rightarrow> (string \<times> int) list \<Rightarrow> nat \<Rightarrow> nat \<Rightarrow> cp_constraint list" where
  \<comment> \<open>the constraints \<^verbatim>\<open>pre_{id}_{i}[j] = all_inputs[i * input_len + j]\<close>\<close>
  "cp_copies output_id_link vars w k =
     concat (map (\<lambda>i. map (\<lambda>j. CEq (CRef (pre_name output_id_link (int i)) (int j))
                                    (CRef (fst (vars ! (i * w + j))) (snd (vars ! (i * w + j)))))
                           [0..<w]) [0..<k])"

definition cp_aux_arrays :: "string \<Rightarrow> nat \<Rightarrow> string list" where
  \<comment> \<open>the arrays that \<^verbatim>\<open>MODADD.cp_constraints\<close> declares: \<^verbatim>\<open>pre_{id}_{i}\<close> and \<^verbatim>\<open>carry_{out}\<close>\<close>
  "cp_aux_arrays oid k =
     map (\<lambda>i. pre_name oid (int i)) [0..<2 * k - 2]
     @ map (\<lambda>i. ''carry_'' @ pre_name oid (int (k + i))) [0..<k - 2] @ [''carry_'' @ oid]"

definition twocomp_carry_ids :: "string list \<Rightarrow> string list" where
  \<comment> \<open>\<^verbatim>\<open>[f'twocomp_carry_{input_id}' for input_id in input_ids[:-1]]\<close>\<close>
  "twocomp_carry_ids input1_ids = map (\<lambda>input_id. ''twocomp_carry_'' @ input_id) (butlast input1_ids)"

definition twocomp_result_ids :: "string list \<Rightarrow> string list" where
  \<comment> \<open>\<^verbatim>\<open>[f'twocomp_result_{input_id}' for input_id in input1_ids]\<close>\<close>
  "twocomp_result_ids input1_ids = map (\<lambda>input_id. ''twocomp_result_'' @ input_id) input1_ids"

definition modsub_carry_ids :: "string list \<Rightarrow> string list" where
  \<comment> \<open>\<^verbatim>\<open>[f'carry_{output_id}' for output_id in output_ids[:-1]]\<close>\<close>
  "modsub_carry_ids output_ids = map (\<lambda>output_id. ''carry_'' @ output_id) (butlast output_ids)"

definition modsub_intermediate_ids :: "string list \<Rightarrow> string list" where
  \<comment> \<open>\<^verbatim>\<open>[f'intermediate_{output_id}' for output_id in output_ids]\<close>\<close>
  "modsub_intermediate_ids output_ids = map (\<lambda>output_id. ''intermediate_'' @ output_id) output_ids"

definition modsub_relations ::
  "(string \<Rightarrow> bool) \<Rightarrow> string list \<Rightarrow> nat \<Rightarrow> string list \<Rightarrow> bool" where
  \<comment> \<open>the two's-complement chain on the second operand, then the carry chain of the addition\<close>
  "modsub_relations \<sigma> input_ids w output_ids =
     (twocomp_chain \<sigma> (twocomp_result_ids (drop w input_ids)) (drop w input_ids)
        (twocomp_carry_ids (drop w input_ids))
      \<and> carry_chain \<sigma> output_ids (take w input_ids) (twocomp_result_ids (drop w input_ids))
          (modsub_carry_ids output_ids))"

section \<open>Sign lookup\<close>

lemma ebind_Inr [simp]: "ebind (Inr x) f = f x"
  by (simp add: ebind_def)

lemma ebind_Inl [simp]: "ebind (Inl e) f = Inl e"
  by (simp add: ebind_def)

lemma py_get_in_range: "i < length xs \<Longrightarrow> py_get xs (int i) = Inr (xs ! i)"
  by (simp add: py_get_def)

lemma py_get_bit:
  assumes "b = 0 \<or> b = 1" "length xs = 2"
  shows "py_get xs b = Inr (xs ! nat b)"
  using assms by (auto simp: py_get_def)

lemma lat_entry_bits:
  assumes "i < length outputs" "input_size div 2 + i < length inputs"
    and "\<forall>b \<in> set inputs. b = 0 \<or> b = 1" "\<forall>b \<in> set outputs. b = 0 \<or> b = 1"
  shows "lat_entry inputs outputs (int input_size) (int i) =
           Inr (lat_at (inputs ! i) (inputs ! (input_size div 2 + i)) (outputs ! i))"
proof -
  have i_in: "i < length inputs" using assms(2) by simp
  have a: "inputs ! i = 0 \<or> inputs ! i = 1"
    using assms(3) i_in nth_mem by blast
  have b: "inputs ! (input_size div 2 + i) = 0 \<or> inputs ! (input_size div 2 + i) = 1"
    using assms(2,3) nth_mem by blast
  have c: "outputs ! i = 0 \<or> outputs ! i = 1"
    using assms(1,4) nth_mem by blast
  have idx: "int input_size div 2 + int i = int (input_size div 2 + i)"
    by (simp add: zdiv_int)
  have g1: "py_get inputs (int i) = Inr (inputs ! i)"
    using i_in by (rule py_get_in_range)
  have g2: "py_get inputs (int input_size div 2 + int i) = Inr (inputs ! (input_size div 2 + i))"
    unfolding idx using assms(2) by (rule py_get_in_range)
  have g3: "py_get outputs (int i) = Inr (outputs ! i)"
    using assms(1) by (rule py_get_in_range)
  have p1: "py_get or_LAT (inputs ! i) = Inr (or_LAT ! nat (inputs ! i))"
    using a by (intro py_get_bit) (auto simp: or_LAT_def)
  have len2: "length (or_LAT ! nat (inputs ! i)) = 2"
    using a by (auto simp: or_LAT_def)
  have p2: "py_get (or_LAT ! nat (inputs ! i)) (inputs ! (input_size div 2 + i))
              = Inr (or_LAT ! nat (inputs ! i) ! nat (inputs ! (input_size div 2 + i)))"
    using b len2 by (intro py_get_bit) auto
  have len3: "length (or_LAT ! nat (inputs ! i) ! nat (inputs ! (input_size div 2 + i))) = 2"
    using a b by (auto simp: or_LAT_def)
  have tab: "or_LAT ! nat (inputs ! i) ! nat (inputs ! (input_size div 2 + i)) ! nat (outputs ! i)
               = lat_at (inputs ! i) (inputs ! (input_size div 2 + i)) (outputs ! i)"
    using a b c by (auto simp: lat_at_def or_LAT_def claimed_or_LAT_def)
  have p3: "py_get (or_LAT ! nat (inputs ! i) ! nat (inputs ! (input_size div 2 + i))) (outputs ! i)
              = Inr (lat_at (inputs ! i) (inputs ! (input_size div 2 + i)) (outputs ! i))"
    unfolding tab [symmetric] using c len3 by (intro py_get_bit) auto
  show ?thesis
    by (simp add: lat_entry_def g1 g2 g3 p1 p2 p3)
qed

lemma sign_loop_upt:
  assumes "n \<le> length outputs" "input_size div 2 + n \<le> length inputs"
    and "\<forall>b \<in> set inputs. b = 0 \<or> b = 1" "\<forall>b \<in> set outputs. b = 0 \<or> b = 1"
    and "m \<le> n"
  shows "sign_loop inputs outputs (int input_size) [m..<n] s =
           Inr (s * (\<Prod>i = m..<n. lat_at (inputs ! i) (inputs ! (input_size div 2 + i)) (outputs ! i)))"
  using assms(5)
proof (induction "n - m" arbitrary: m s)
  case 0
  then show ?case by simp
next
  case (Suc d)
  then have lt: "m < n" by simp
  have e: "lat_entry inputs outputs (int input_size) (int m) =
             Inr (lat_at (inputs ! m) (inputs ! (input_size div 2 + m)) (outputs ! m))"
    using lt assms(1,2) by (intro lat_entry_bits assms(3,4)) auto
  have ih: "sign_loop inputs outputs (int input_size) [Suc m..<n] s' =
              Inr (s' * (\<Prod>i = Suc m..<n. lat_at (inputs ! i) (inputs ! (input_size div 2 + i)) (outputs ! i)))"
    for s'
    using Suc.hyps(1) [of "Suc m" s'] Suc.hyps(2) lt by simp
  show ?case
    using lt by (simp add: upt_conv_Cons e ih prod.atLeast_Suc_lessThan mult.assoc)
qed

text \<open>
  C10. With 0/1 bit lists of matching sizes (two operand words and one output word) the
  function returns the product, over the output bit positions \<open>i\<close>, of the entries at
  \<open>[inputs[i]][inputs[input_size div 2 + i]][outputs[i]]\<close> of the table
  \<^verbatim>\<open>[[[1,-1],[0,1]],[[0,1],[0,1]]]\<close> that the specification spells out; the table of the
  function body is that table; all-zero lists give \<open>+1\<close>; and inputs \<open>(1, 1)\<close> with output
  \<open>1\<close> give the entry \<open>or_LAT[1][1][1] = 1\<close>.
\<close>

theorem generic_sign_is_lat_product:
  assumes "\<forall>b \<in> set inputs. b = 0 \<or> b = 1" "\<forall>b \<in> set outputs. b = 0 \<or> b = 1"
    and "length outputs = w" "length inputs = 2 * w"
  shows "generic_sign_linear_constraints (2 * w) w inputs outputs =
           Inr (\<Prod>i<w. [[[1, - 1], [0, 1]], [[0, 1], [0, 1]]]
                          ! nat (inputs ! i) ! nat (inputs ! ((2 * w) div 2 + i)) ! nat (outputs ! i))
         \<and> or_LAT = [[[1, - 1], [0, 1]], [[0, 1], [0, 1]]]
         \<and> generic_sign_linear_constraints (2 * w) w (replicate (2 * w) 0) (replicate w 0) = Inr 1
         \<and> generic_sign_linear_constraints 2 1 [1, 1] [1] = Inr (or_LAT ! 1 ! 1 ! 1)
         \<and> or_LAT ! 1 ! 1 ! 1 = 1"
proof (intro conjI)
  have "generic_sign_linear_constraints (2 * w) w inputs outputs =
           Inr (sign_product (2 * w) w inputs outputs)"
    unfolding generic_sign_linear_constraints_def sign_product_def
    using sign_loop_upt [of w outputs "2 * w" inputs 0 1] assms
    by (simp add: atLeast0LessThan)
  then show "generic_sign_linear_constraints (2 * w) w inputs outputs =
           Inr (\<Prod>i<w. [[[1, - 1], [0, 1]], [[0, 1], [0, 1]]]
                          ! nat (inputs ! i) ! nat (inputs ! ((2 * w) div 2 + i)) ! nat (outputs ! i))"
    unfolding sign_product_def lat_at_def claimed_or_LAT_def .
  show "or_LAT = [[[1, - 1], [0, 1]], [[0, 1], [0, 1]]]"
    by (simp add: or_LAT_def)
  have "sign_loop (replicate (2 * w) 0) (replicate w 0) (int (2 * w)) [0..<w] 1 =
          Inr (1 * (\<Prod>i = 0..<w. lat_at (replicate (2 * w) 0 ! i)
                 (replicate (2 * w) 0 ! ((2 * w) div 2 + i)) (replicate w 0 ! i)))"
    by (rule sign_loop_upt) auto
  also have "(\<Prod>i = 0..<w. lat_at (replicate (2 * w) 0 ! i)
                 (replicate (2 * w) 0 ! ((2 * w) div 2 + i)) (replicate w 0 ! i)) = 1"
    by (intro prod.neutral) (auto simp: lat_at_def claimed_or_LAT_def)
  finally show "generic_sign_linear_constraints (2 * w) w (replicate (2 * w) 0) (replicate w 0) = Inr 1"
    by (simp add: generic_sign_linear_constraints_def)
  show "generic_sign_linear_constraints 2 1 [1, 1] [1] = Inr (or_LAT ! 1 ! 1 ! 1)"
    by (simp add: generic_sign_linear_constraints_def lat_entry_def py_get_def or_LAT_def)
  show "or_LAT ! 1 ! 1 ! 1 = 1"
    by (simp add: or_LAT_def)
qed

theorem generic_sign_is_lat_product_witness:
  "generic_sign_linear_constraints 4 2 [0, 1, 0, 0] [1, 1] = Inr (- 1)"
proof -
  have "generic_sign_linear_constraints (2 * 2) 2 [0, 1, 0, 0] [1, 1] =
          Inr (\<Prod>i<2. [[[1, - 1], [0, 1]], [[0, 1], [0, 1]]]
                          ! nat ([0, 1, 0, 0] ! i) ! nat ([0, 1, 0, 0] ! ((2 * 2) div 2 + i)) ! nat ([1, 1] ! i))"
    using generic_sign_is_lat_product [of "[0, 1, 0, 0]" "[1, 1]" 2] by simp
  moreover have "{..<2::nat} = {0, 1}"
    by auto
  then have "(\<Prod>i<2. [[[1, - 1], [0, 1]], [[0, 1], [0, 1]]]
                          ! nat ([0, 1, 0, 0] ! i) ! nat ([0, 1, 0, 0] ! ((2 * 2) div 2 + i)) ! nat ([1, 1] ! i))
               = (- 1 :: int)"
    by simp
  ultimately show ?thesis by simp
qed

section \<open>Single-bit words\<close>

text \<open>
  C7. With one-bit operands the list of carry identifiers is empty, and each of the
  CMS, SAT and SMT encoders of MODADD and MODSUB reads its last element: the call ends in
  \<open>IndexError\<close> instead of returning the XOR of the two operand bits.
\<close>

theorem one_bit_encoders_raise:
  "MODADD_cms_constraints_ids [a, b] 1 [r] 2 = Inl IndexError
   \<and> MODADD_sat_constraints_ids [a, b] 1 [r] 2 = Inl IndexError
   \<and> MODADD_smt_constraints_ids [a, b] 1 [r] 2 = Inl IndexError
   \<and> MODSUB_cms_constraints_ids [a, b] 1 [r] = Inl IndexError
   \<and> MODSUB_sat_constraints_ids [a, b] 1 [r] = Inl IndexError
   \<and> MODSUB_smt_constraints_ids [a, b] 1 [r] = Inl IndexError"
proof (intro conjI)
  show "MODADD_cms_constraints_ids [a, b] 1 [r] 2 = Inl IndexError"
    by (simp add: MODADD_cms_constraints_ids_def modadd_inputs_ids_def modadd_carries_ids_def
        modadd_outputs_ids_def cms_modadd_seq_def cms_modadd_def py_get_def py_last_def)
  show "MODADD_sat_constraints_ids [a, b] 1 [r] 2 = Inl IndexError"
    by (simp add: MODADD_sat_constraints_ids_def modadd_inputs_ids_def modadd_carries_ids_def
        modadd_outputs_ids_def modadd_intermediates_ids_def sat_modadd_seq_def sat_modadd_def
        py_get_def py_last_def)
  show "MODADD_smt_constraints_ids [a, b] 1 [r] 2 = Inl IndexError"
    by (simp add: MODADD_smt_constraints_ids_def modadd_inputs_ids_def modadd_carries_ids_def
        modadd_outputs_ids_def smt_modadd_seq_def smt_modadd_def py_get_def py_last_def)
  show "MODSUB_cms_constraints_ids [a, b] 1 [r] = Inl IndexError"
    by (simp add: MODSUB_cms_constraints_ids_def two_complement_sat_constraints_def
        py_get_def py_last_def)
  show "MODSUB_sat_constraints_ids [a, b] 1 [r] = Inl IndexError"
    by (simp add: MODSUB_sat_constraints_ids_def two_complement_sat_constraints_def
        py_get_def py_last_def)
  show "MODSUB_smt_constraints_ids [a, b] 1 [r] = Inl IndexError"
    by (simp add: MODSUB_smt_constraints_ids_def py_get_def py_last_def)
qed

section \<open>The identifier list of OR.sat_constraints\<close>

text \<open>
  C9. For a three-operand, one-bit OR the encoder does not return an identifier list at
  all: \<^verbatim>\<open>intermediate_ids + output_bit_ids[i]\<close> adds a string to a list, which is a
  \<open>TypeError\<close>. (Its \<^verbatim>\<open>return\<close> statement names \<^verbatim>\<open>output_bit_ids\<close> only, so the
  intermediate identifier \<^verbatim>\<open>int_000_or_0_0_0\<close> would not be listed either.)
\<close>

theorem or_sat_constraints_raises:
  "OR_sat_constraints_ids [''a_0'', ''b_0'', ''c_0''] 1 [''or_0_0_0''] 3 = Inl TypeError"
  by code_simp

section \<open>Three and four operands in the CP encoders\<close>

text \<open>
  C4. Four two-bit operands \<open>a = 1\<close>, \<open>b = 1\<close>, \<open>c = 0\<close>, \<open>d = 0\<close>: the constraints of
  \<^verbatim>\<open>MODADD.cp_constraints\<close> are satisfied with the output word equal to \<open>1\<close>, while the sum
  is \<open>2\<close>. The second reduction adds the raw operands \<^verbatim>\<open>pre_m_3\<close> and \<^verbatim>\<open>pre_m_2\<close> (not the
  previous result \<^verbatim>\<open>pre_m_4\<close>), so the operand \<^verbatim>\<open>pre_m_1\<close> never reaches the output.
\<close>

theorem modadd_cp_four_operands_drop_one:
  "case MODADD_cp_constraints
          \<lparr>comp_id = ''m'', input_id_links = [''a'', ''b'', ''c'', ''d''],
           input_bit_positions = [[0, 1], [0, 1], [0, 1], [0, 1]], input_bit_size = 8,
           output_bit_size = 2, description_1 = 4\<rparr>
   of Inl e \<Rightarrow> False
    | Inr (declarations, constraints) \<Rightarrow>
        (let \<rho> = (\<lambda>name i. if (name, i) \<in> set [(''a'', 1), (''b'', 1), (''pre_m_0'', 1),
                                  (''pre_m_1'', 1), (''pre_m_4'', 1), (''m'', 1)] then 1 else 0)
         in list_all (cp_holds 2 \<rho>) constraints
            \<and> cp_word \<rho> ''m'' 2 = 1
            \<and> (cp_word \<rho> ''a'' 2 + cp_word \<rho> ''b'' 2 + cp_word \<rho> ''c'' 2 + cp_word \<rho> ''d'' 2) mod 2 ^ 2 = 2
            \<and> CEq (CRef ''pre_m_5'' 1) (CMod (CAdd (CRef ''pre_m_3'' 1) (CRef ''pre_m_2'' 1)) 2)
                 \<in> set constraints
            \<and> ''pre_m_4'' \<notin> set (concat (map constraint_arrays (drop 11 constraints))))"
  by code_simp

text \<open>
  C5. Three operands: \<^verbatim>\<open>MODSUB.cp_constraints\<close> declares the output array and emits the
  first reduction into \<^verbatim>\<open>temp_modsub_0_7_0\<close>, and nothing else: no constraint mentions the
  output array \<^verbatim>\<open>modsub_0_7\<close>.
\<close>

theorem modsub_cp_three_operands_output_free:
  "case MODSUB_cp_constraints
          \<lparr>comp_id = ''modsub_0_7'', input_id_links = [''a'', ''b'', ''c''],
           input_bit_positions = [[0, 1], [0, 1], [0, 1]], input_bit_size = 6,
           output_bit_size = 2, description_1 = 3\<rparr>
   of Inl e \<Rightarrow> False
    | Inr (declarations, constraints) \<Rightarrow>
        DArray 0 1 ''modsub_0_7'' \<in> set declarations
        \<and> CModadd ''pre_modsub_0_7_0'' ''minus_pre_modsub_0_7_1'' ''temp_modsub_0_7_0'' = last constraints
        \<and> ''modsub_0_7'' \<notin> set (concat (map constraint_arrays constraints))"
  by code_simp

section \<open>The polynomials of OR\<close>

text \<open>
  C6. Two one-bit operands: the fold starts from the polynomial \<open>1\<close>, and \<open>1 OR v\<close> is \<open>1\<close>.
  With both input bits \<open>0\<close>, the output bit \<open>1\<close> is a zero of the returned polynomial and
  the output bit \<open>0\<close>, the OR of the inputs, is not.
\<close>

theorem or_polynomials_force_output_one:
  "case OR_algebraic_polynomials
          \<lparr>comp_id = ''or_0_4'', input_id_links = [''a'', ''b''],
           input_bit_positions = [[0], [0]], input_bit_size = 2,
           output_bit_size = 1, description_1 = 2\<rparr> ''x'' ''y''
   of Inl e \<Rightarrow> False
    | Inr polynomials \<Rightarrow>
        length polynomials = 1
        \<and> common_zero (\<lambda>v. v = ''or_0_4_y0'') polynomials
        \<and> \<not> common_zero (\<lambda>v. False) polynomials"
  by code_simp

section \<open>The ripple-carry adder\<close>

lemma bl_val_lt: "bl_val bs < 2 ^ length bs"
  by (induction bs) (auto simp: of_bool_def)

lemma length_sumbits [simp]: "length as = length bs \<Longrightarrow> length (sumbits as bs) = length as"
  by (induction as bs rule: list_induct2) auto

lemma sumbits_value:
  "length as = length bs \<Longrightarrow>
     bl_val (sumbits as bs) + 2 ^ length as * of_bool (cout as bs) = bl_val as + bl_val bs"
proof (induction as bs rule: list_induct2)
  case Nil
  then show ?case by simp
next
  case (Cons a as b bs)
  then show ?case
    by (cases a; cases b; cases "cout as bs") (simp_all add: maj3_def xor3_def)
qed

lemma sumbits_mod:
  assumes "length as = length bs"
  shows "bl_val (sumbits as bs) = (bl_val as + bl_val bs) mod 2 ^ length as"
proof -
  have "bl_val (sumbits as bs) < 2 ^ length as"
    using bl_val_lt [of "sumbits as bs"] assms by simp
  moreover have "(bl_val (sumbits as bs) + 2 ^ length as * of_bool (cout as bs)) mod 2 ^ length as
                   = (bl_val as + bl_val bs) mod 2 ^ length as"
    using sumbits_value [OF assms] by simp
  ultimately show ?thesis by simp
qed

lemma bl_val_inj:
  "length as = length bs \<Longrightarrow> bl_val as = bl_val bs \<Longrightarrow> as = bs"
proof (induction as bs rule: list_induct2)
  case Nil
  then show ?case by simp
next
  case (Cons a as b bs)
  have la: "bl_val as < 2 ^ length as" by (rule bl_val_lt)
  have lb: "bl_val bs < 2 ^ length as" using bl_val_lt [of bs] Cons.hyps by simp
  from Cons.prems Cons.hyps have eq: "of_bool a * 2 ^ length as + bl_val as = of_bool b * 2 ^ length as + bl_val bs"
    by simp
  have "a = b"
    using eq la lb by (cases a; cases b) auto
  with eq have "bl_val as = bl_val bs" by simp
  with Cons.IH \<open>a = b\<close> show ?case by simp
qed

lemma cout_drop:
  assumes "i < length as" "length as = length bs"
  shows "cout (drop i as) (drop i bs) = maj3 (as ! i) (bs ! i) (cout (drop (Suc i) as) (drop (Suc i) bs))"
proof -
  have "drop i as = as ! i # drop (Suc i) as" "drop i bs = bs ! i # drop (Suc i) bs"
    using assms by (simp_all add: Cons_nth_drop_Suc)
  then show ?thesis by simp
qed

lemma sumbits_nth:
  "length as = length bs \<Longrightarrow> i < length as \<Longrightarrow>
     sumbits as bs ! i = xor3 (as ! i) (bs ! i) (cout (drop (Suc i) as) (drop (Suc i) bs))"
proof (induction as bs arbitrary: i rule: list_induct2)
  case Nil
  then show ?case by simp
next
  case (Cons a as b bs)
  then show ?case by (cases i) auto
qed

lemma length_carries [simp]: "length (carries as bs) = length as - 1"
  by (simp add: carries_def)

lemma carries_nth: "i + 1 < length as \<Longrightarrow> carries as bs ! i = cout (drop (Suc i) as) (drop (Suc i) bs)"
proof -
  assume "i + 1 < length as"
  then have "i < length as - 1" by simp
  then show ?thesis unfolding carries_def by (simp del: upt_Suc)
qed


lemma chain_carries_down:
  assumes len: "length X = w" "length Y = w" "length C = w - 1" "2 \<le> w"
    and last: "C ! (w - 2) = (X ! (w - 1) \<and> Y ! (w - 1))"
    and step: "\<forall>i. i + 2 < w \<longrightarrow> C ! i = maj3 (X ! (i + 1)) (Y ! (i + 1)) (C ! (i + 1))"
  shows "d + 2 \<le> w \<Longrightarrow> C ! (w - 2 - d) = cout (drop (Suc (w - 2 - d)) X) (drop (Suc (w - 2 - d)) Y)"
proof (induction d)
  case 0
  have "Suc (w - 2) = w - 1" using len(4) by simp
  moreover have "cout (drop (w - 1) X) (drop (w - 1) Y) = maj3 (X ! (w - 1)) (Y ! (w - 1)) (cout (drop (Suc (w - 1)) X) (drop (Suc (w - 1)) Y))"
    using len by (intro cout_drop) auto
  moreover have "drop (Suc (w - 1)) X = []" "drop (Suc (w - 1)) Y = []" using len by auto
  ultimately show ?case using last by (simp add: maj3_def)
next
  case (Suc d)
  let ?i = "w - 2 - Suc d"
  have i: "?i + 2 < w" "Suc ?i = w - 2 - d" using Suc.prems by auto
  have "C ! ?i = maj3 (X ! (?i + 1)) (Y ! (?i + 1)) (C ! (?i + 1))"
    using step i(1) by blast
  also have "C ! (?i + 1) = cout (drop (Suc (w - 2 - d)) X) (drop (Suc (w - 2 - d)) Y)"
    using Suc.IH Suc.prems i(2) by simp
  also have "maj3 (X ! (?i + 1)) (Y ! (?i + 1)) (cout (drop (Suc (w - 2 - d)) X) (drop (Suc (w - 2 - d)) Y))
              = cout (drop (Suc ?i) X) (drop (Suc ?i) Y)"
    using cout_drop [of "Suc ?i" X Y] len i by simp
  finally show ?case .
qed

lemma chain_bl_iff:
  assumes len: "length X = w" "length Y = w" "length Out = w" "length C = w - 1" "2 \<le> w"
  shows "chain_bl X Y Out C \<longleftrightarrow> C = carries X Y \<and> Out = sumbits X Y"
proof
  assume ch: "chain_bl X Y Out C"
  then have last: "C ! (w - 2) = (X ! (w - 1) \<and> Y ! (w - 1))"
    and step: "\<forall>i. i + 2 < w \<longrightarrow> C ! i = maj3 (X ! (i + 1)) (Y ! (i + 1)) (C ! (i + 1))"
    and outs: "\<forall>i. i + 1 < w \<longrightarrow> Out ! i = xor3 (X ! i) (Y ! i) (C ! i)"
    and outl: "Out ! (w - 1) = (X ! (w - 1) \<noteq> Y ! (w - 1))"
    using len(3) by (auto simp: chain_bl_def Let_def)
  have cs: "C ! i = cout (drop (Suc i) X) (drop (Suc i) Y)" if "i + 1 < w" for i
  proof -
    have "(w - 2 - i) + 2 \<le> w" "w - 2 - (w - 2 - i) = i" using that by auto
    then show ?thesis
      using chain_carries_down [OF len(1,2,4,5) last step, of "w - 2 - i"] by simp
  qed
  have C: "C = carries X Y"
    by (rule nth_equalityI) (use len cs in \<open>auto simp: carries_nth\<close>)
  have "Out ! i = sumbits X Y ! i" if "i < w" for i
  proof (cases "i + 1 < w")
    case True
    then show ?thesis using outs cs len by (simp add: sumbits_nth)
  next
    case False
    then have i: "i = w - 1" using that by simp
    have "drop (Suc (w - 1)) X = []" "drop (Suc (w - 1)) Y = []" using len by auto
    then show ?thesis using outl len that unfolding i by (simp add: sumbits_nth xor3_def)
  qed
  then have "Out = sumbits X Y"
    by (intro nth_equalityI) (use len in auto)
  with C show "C = carries X Y \<and> Out = sumbits X Y" ..
next
  assume eq: "C = carries X Y \<and> Out = sumbits X Y"
  have cs: "C ! i = cout (drop (Suc i) X) (drop (Suc i) Y)" if "i + 1 < w" for i
    using eq that len by (simp add: carries_nth)
  have e: "drop (Suc (w - 1)) X = []" "drop (Suc (w - 1)) Y = []" using len by auto
  have "Suc (w - 2) = w - 1" using len by simp
  then have last: "C ! (w - 2) = (X ! (w - 1) \<and> Y ! (w - 1))"
    using cs [of "w - 2"] cout_drop [of "w - 1" X Y] len e by (simp add: maj3_def)
  have step: "C ! i = maj3 (X ! (i + 1)) (Y ! (i + 1)) (C ! (i + 1))" if "i + 2 < w" for i
    using cs [of i] cs [of "i + 1"] cout_drop [of "Suc i" X Y] that len by simp
  have outs: "Out ! i = xor3 (X ! i) (Y ! i) (C ! i)" if "i + 1 < w" for i
    using eq cs [of i] that len by (simp add: sumbits_nth)
  have outl: "Out ! (w - 1) = (X ! (w - 1) \<noteq> Y ! (w - 1))"
    using eq len e by (simp add: sumbits_nth xor3_def)
  show "chain_bl X Y Out C"
    using last step outs outl len(3) by (simp add: chain_bl_def Let_def)
qed

section \<open>What one block of clauses says\<close>

lemma py_last_nonempty: "xs \<noteq> [] \<Longrightarrow> py_last xs = Inr (xs ! (length xs - 1))"
  by (cases xs) (auto simp: py_last_def py_get_def nat_diff_distrib' algebra_simps)

lemma cnf_true_append [simp]: "cnf_true \<sigma> (a @ b) = (cnf_true \<sigma> a \<and> cnf_true \<sigma> b)"
  by (simp add: cnf_true_def)

lemma cnf_true_concat_map: "cnf_true \<sigma> (concat (map f zs)) = (\<forall>z \<in> set zs. cnf_true \<sigma> (f z))"
  by (induction zs) (auto simp: cnf_true_def)

lemma cnf_true_map: "cnf_true \<sigma> (map f zs) = (\<forall>z \<in> set zs. clause_true \<sigma> (f z))"
  by (simp add: cnf_true_def list_all_iff)

lemma cnf_carry_sem: "cnf_true \<sigma> (cnf_carry c x y p) = (\<sigma> c = maj3 (\<sigma> x) (\<sigma> y) (\<sigma> p))"
  by (auto simp: cnf_true_def cnf_carry_def maj3_def)

lemma cnf_and2_sem: "cnf_true \<sigma> (cnf_and c [x, y]) = (\<sigma> c = (\<sigma> x \<and> \<sigma> y))"
  by (auto simp: cnf_true_def cnf_and_def)

lemma cnf_xor2_sem: "cnf_true \<sigma> (cnf_xor r [x, y]) = (\<sigma> r = (\<sigma> x \<noteq> \<sigma> y))"
  by (auto simp: cnf_true_def cnf_xor_def)

lemma cnf_result_sem:
  "cnf_true \<sigma> (cnf_result r x y c m) = (\<sigma> m = (\<sigma> x \<noteq> \<sigma> y) \<and> \<sigma> r = xor3 (\<sigma> x) (\<sigma> y) (\<sigma> c))"
  by (auto simp: cnf_result_def cnf_xor2_sem xor3_def)

lemma xor_clause4_sem:
  "clause_true \<sigma> (XorClause [Neg r, Pos x, Pos y, Pos c]) = (\<sigma> r = xor3 (\<sigma> x) (\<sigma> y) (\<sigma> c))"
  by (auto simp: xor3_def)

lemma xor_clause3_sem:
  "clause_true \<sigma> (XorClause [Neg r, Pos x, Pos y]) = (\<sigma> r = (\<sigma> x \<noteq> \<sigma> y))"
  by auto

lemma ball_zip2:
  "(\<forall>z \<in> set (zip as bs). P z) \<longleftrightarrow> (\<forall>i. i < length as \<and> i < length bs \<longrightarrow> P (as ! i, bs ! i))"
  by (auto simp: set_zip)

lemma ball_zip3:
  "(\<forall>z \<in> set (zip as (zip bs cs)). P z) \<longleftrightarrow>
   (\<forall>i. i < length as \<and> i < length bs \<and> i < length cs \<longrightarrow> P (as ! i, bs ! i, cs ! i))"
  by (simp add: ball_zip2)

lemma ball_zip4:
  "(\<forall>z \<in> set (zip as (zip bs (zip cs ds))). P z) \<longleftrightarrow>
   (\<forall>i. i < length as \<and> i < length bs \<and> i < length cs \<and> i < length ds
        \<longrightarrow> P (as ! i, bs ! i, cs ! i, ds ! i))"
  by (simp add: ball_zip2)

lemma ball_zip5:
  "(\<forall>z \<in> set (zip as (zip bs (zip cs (zip ds es)))). P z) \<longleftrightarrow>
   (\<forall>i. i < length as \<and> i < length bs \<and> i < length cs \<and> i < length ds \<and> i < length es
        \<longrightarrow> P (as ! i, bs ! i, cs ! i, ds ! i, es ! i))"
  by (simp add: ball_zip2)

lemma cnf_true_Nil [simp]: "cnf_true \<sigma> []"
  by (simp add: cnf_true_def)

lemma cnf_true_Cons [simp]: "cnf_true \<sigma> (c # cs) = (clause_true \<sigma> c \<and> cnf_true \<sigma> cs)"
  by (simp add: cnf_true_def)

lemma carry_chain_index:
  "carry_chain \<sigma> out x y c \<longleftrightarrow>
     (\<sigma> (c ! (length out - 2)) = (\<sigma> (x ! (length out - 1)) \<and> \<sigma> (y ! (length out - 1)))
      \<and> (\<forall>i. i + 2 < length out \<longrightarrow> \<sigma> (c ! i) = maj3 (\<sigma> (x ! (i + 1))) (\<sigma> (y ! (i + 1))) (\<sigma> (c ! (i + 1))))
      \<and> (\<forall>i. i + 1 < length out \<longrightarrow> \<sigma> (out ! i) = xor3 (\<sigma> (x ! i)) (\<sigma> (y ! i)) (\<sigma> (c ! i)))
      \<and> \<sigma> (out ! (length out - 1)) = (\<sigma> (x ! (length out - 1)) \<noteq> \<sigma> (y ! (length out - 1))))"
  unfolding carry_chain_def Let_def list_all_iff
  by (auto simp: less_diff_conv)

lemma carries_part:
  assumes len: "length x = w" "length y = w" "length c = w - 1"
  shows "cnf_true \<sigma> (concat (map (\<lambda>(ci, xi, yi, p). cnf_carry ci xi yi p)
                            (zip c (zip (tl x) (zip (tl y) (tl c))))))
         \<longleftrightarrow> (\<forall>i. i + 2 < w \<longrightarrow> \<sigma> (c ! i) = maj3 (\<sigma> (x ! (i + 1))) (\<sigma> (y ! (i + 1))) (\<sigma> (c ! (i + 1))))"
proof -
  have "cnf_true \<sigma> (concat (map (\<lambda>(ci, xi, yi, p). cnf_carry ci xi yi p)
                            (zip c (zip (tl x) (zip (tl y) (tl c))))))
        \<longleftrightarrow> (\<forall>i. i < length c \<and> i < length (tl x) \<and> i < length (tl y) \<and> i < length (tl c)
               \<longrightarrow> \<sigma> (c ! i) = maj3 (\<sigma> (tl x ! i)) (\<sigma> (tl y ! i)) (\<sigma> (tl c ! i)))"
    unfolding cnf_true_concat_map ball_zip4 by (simp only: split cnf_carry_sem)
  also have "\<dots> \<longleftrightarrow> (\<forall>i. i + 2 < w \<longrightarrow> \<sigma> (c ! i) = maj3 (\<sigma> (x ! (i + 1))) (\<sigma> (y ! (i + 1))) (\<sigma> (c ! (i + 1))))"
  proof (intro iff_allI)
    fix i
    show "(i < length c \<and> i < length (tl x) \<and> i < length (tl y) \<and> i < length (tl c)
               \<longrightarrow> \<sigma> (c ! i) = maj3 (\<sigma> (tl x ! i)) (\<sigma> (tl y ! i)) (\<sigma> (tl c ! i)))
          \<longleftrightarrow> (i + 2 < w \<longrightarrow> \<sigma> (c ! i) = maj3 (\<sigma> (x ! (i + 1))) (\<sigma> (y ! (i + 1))) (\<sigma> (c ! (i + 1))))"
    proof (cases "i + 2 < w")
      case True
      then have "i < length c" "i < length (tl x)" "i < length (tl y)" "i < length (tl c)"
        using len by auto
      moreover from this have "tl x ! i = x ! (i + 1)" "tl y ! i = y ! (i + 1)" "tl c ! i = c ! (i + 1)"
        by (simp_all add: nth_tl)
      ultimately show ?thesis using True by simp
    next
      case False
      then have "\<not> i < length (tl c)" using len by auto
      with False show ?thesis by simp
    qed
  qed
  finally show ?thesis .
qed

lemma results_part_cms:
  assumes len: "length out = w" "length x = w" "length y = w" "length c = w - 1"
  shows "cnf_true \<sigma> (map (\<lambda>(r, xi, yi, ci). XorClause [Neg r, Pos xi, Pos yi, Pos ci])
                      (zip out (zip x (zip y c))))
         \<longleftrightarrow> (\<forall>i. i + 1 < w \<longrightarrow> \<sigma> (out ! i) = xor3 (\<sigma> (x ! i)) (\<sigma> (y ! i)) (\<sigma> (c ! i)))"
proof -
  have "cnf_true \<sigma> (map (\<lambda>(r, xi, yi, ci). XorClause [Neg r, Pos xi, Pos yi, Pos ci])
                      (zip out (zip x (zip y c))))
        \<longleftrightarrow> (\<forall>i. i < length out \<and> i < length x \<and> i < length y \<and> i < length c
               \<longrightarrow> \<sigma> (out ! i) = xor3 (\<sigma> (x ! i)) (\<sigma> (y ! i)) (\<sigma> (c ! i)))"
    unfolding cnf_true_map ball_zip4 by (simp only: split xor_clause4_sem)
  also have "\<dots> \<longleftrightarrow> (\<forall>i. i + 1 < w \<longrightarrow> \<sigma> (out ! i) = xor3 (\<sigma> (x ! i)) (\<sigma> (y ! i)) (\<sigma> (c ! i)))"
    using len by (intro iff_allI) auto
  finally show ?thesis .
qed

lemma cms_modadd_sem:
  assumes len: "length out = w" "length x = w" "length y = w" "length c = w - 1" "2 \<le> w"
  shows "\<exists>cs. cms_modadd out x y c = Inr cs \<and> (\<forall>\<sigma>. cnf_true \<sigma> cs = carry_chain \<sigma> out x y c)"
proof -
  have ne: "c \<noteq> []" "x \<noteq> []" "y \<noteq> []" "out \<noteq> []" using len by auto
  have w2: "w - 1 - 1 = w - 2" by simp
  let ?A = "concat (map (\<lambda>(ci, xi, yi, p). cnf_carry ci xi yi p) (zip c (zip (tl x) (zip (tl y) (tl c)))))"
  let ?B = "cnf_and (c ! (w - 2)) [x ! (w - 1), y ! (w - 1)]"
  let ?C = "map (\<lambda>(r, xi, yi, ci). XorClause [Neg r, Pos xi, Pos yi, Pos ci]) (zip out (zip x (zip y c)))"
  let ?D = "[XorClause [Neg (out ! (w - 1)), Pos (x ! (w - 1)), Pos (y ! (w - 1))]]"
  have eq: "cms_modadd out x y c = Inr (?A @ ?B @ ?C @ ?D)"
    unfolding cms_modadd_def Let_def py_last_nonempty [OF ne(1)] py_last_nonempty [OF ne(2)]
      py_last_nonempty [OF ne(3)] py_last_nonempty [OF ne(4)] ebind_Inr len w2 ..
  have "cnf_true \<sigma> (?A @ ?B @ ?C @ ?D) = carry_chain \<sigma> out x y c" for \<sigma>
    unfolding cnf_true_append carries_part [OF len(2,3,4)] results_part_cms [OF len(1,2,3,4)]
      cnf_and2_sem carry_chain_index len
    by (simp only: cnf_true_Cons cnf_true_Nil xor_clause3_sem) blast
  with eq show ?thesis by blast
qed

section \<open>SAT and SMT blocks\<close>

lemma results_part_sat:
  assumes len: "length out = w" "length x = w" "length y = w" "length c = w - 1" "length m = w"
  shows "cnf_true \<sigma> (concat (map (\<lambda>(r, xi, yi, ci, mi). cnf_result r xi yi ci mi)
                      (zip out (zip x (zip y (zip c m))))))
         \<longleftrightarrow> (\<forall>i. i + 1 < w \<longrightarrow> \<sigma> (out ! i) = xor3 (\<sigma> (x ! i)) (\<sigma> (y ! i)) (\<sigma> (c ! i)))
              \<and> (\<forall>i. i + 1 < w \<longrightarrow> \<sigma> (m ! i) = (\<sigma> (x ! i) \<noteq> \<sigma> (y ! i)))"
proof -
  have "cnf_true \<sigma> (concat (map (\<lambda>(r, xi, yi, ci, mi). cnf_result r xi yi ci mi)
                      (zip out (zip x (zip y (zip c m))))))
        \<longleftrightarrow> (\<forall>i. i < length out \<and> i < length x \<and> i < length y \<and> i < length c \<and> i < length m
               \<longrightarrow> \<sigma> (m ! i) = (\<sigma> (x ! i) \<noteq> \<sigma> (y ! i))
                    \<and> \<sigma> (out ! i) = xor3 (\<sigma> (x ! i)) (\<sigma> (y ! i)) (\<sigma> (c ! i)))"
    unfolding cnf_true_concat_map ball_zip5 by (simp only: split cnf_result_sem)
  also have "\<dots> \<longleftrightarrow> (\<forall>i. i + 1 < w \<longrightarrow> \<sigma> (m ! i) = (\<sigma> (x ! i) \<noteq> \<sigma> (y ! i))
                    \<and> \<sigma> (out ! i) = xor3 (\<sigma> (x ! i)) (\<sigma> (y ! i)) (\<sigma> (c ! i)))"
    using len by (intro iff_allI) auto
  finally show ?thesis by blast
qed

lemma intermediate_xors_index:
  "intermediate_xors \<sigma> m x y \<longleftrightarrow> (\<forall>i. i + 1 < length x \<longrightarrow> \<sigma> (m ! i) = (\<sigma> (x ! i) \<noteq> \<sigma> (y ! i)))"
  unfolding intermediate_xors_def list_all_iff by (auto simp: less_diff_conv)

lemma sat_modadd_sem:
  assumes len: "length out = w" "length x = w" "length y = w" "length c = w - 1" "length m = w" "2 \<le> w"
  shows "\<exists>cs. sat_modadd out x y c m = Inr cs
              \<and> (\<forall>\<sigma>. cnf_true \<sigma> cs = (carry_chain \<sigma> out x y c \<and> intermediate_xors \<sigma> m x y))"
proof -
  have ne: "c \<noteq> []" "x \<noteq> []" "y \<noteq> []" "out \<noteq> []" using len by auto
  have w2: "w - 1 - 1 = w - 2" by simp
  let ?A = "concat (map (\<lambda>(ci, xi, yi, p). cnf_carry ci xi yi p) (zip c (zip (tl x) (zip (tl y) (tl c)))))"
  let ?B = "cnf_and (c ! (w - 2)) [x ! (w - 1), y ! (w - 1)]"
  let ?C = "concat (map (\<lambda>(r, xi, yi, ci, mi). cnf_result r xi yi ci mi) (zip out (zip x (zip y (zip c m)))))"
  let ?D = "cnf_xor (out ! (w - 1)) [x ! (w - 1), y ! (w - 1)]"
  have eq: "sat_modadd out x y c m = Inr (?A @ ?B @ ?C @ ?D)"
    unfolding sat_modadd_def Let_def py_last_nonempty [OF ne(1)] py_last_nonempty [OF ne(2)]
      py_last_nonempty [OF ne(3)] py_last_nonempty [OF ne(4)] ebind_Inr len w2 ..
  have "cnf_true \<sigma> (?A @ ?B @ ?C @ ?D) = (carry_chain \<sigma> out x y c \<and> intermediate_xors \<sigma> m x y)" for \<sigma>
    unfolding cnf_true_append carries_part [OF len(2,3,4)] results_part_sat [OF len(1,2,3,4,5)]
      cnf_and2_sem cnf_xor2_sem carry_chain_index intermediate_xors_index len
    by blast
  with eq show ?thesis by blast
qed

lemma smt_true_append [simp]: "smt_true \<sigma> (a @ b) = (smt_true \<sigma> a \<and> smt_true \<sigma> b)"
  by (simp add: smt_true_def)

lemma smt_true_map: "smt_true \<sigma> (map f zs) = (\<forall>z \<in> set zs. command_true \<sigma> (f z))"
  by (simp add: smt_true_def list_all_iff)

lemma smt_true_Nil [simp]: "smt_true \<sigma> []"
  by (simp add: smt_true_def)

lemma smt_true_Cons [simp]: "smt_true \<sigma> (c # cs) = (command_true \<sigma> c \<and> smt_true \<sigma> cs)"
  by (simp add: smt_true_def)

lemma smt_carry_sem:
  "command_true \<sigma> (smt_assert (smt_equivalent (SVar c) (smt_carry x y p))) = (\<sigma> c = maj3 (\<sigma> x) (\<sigma> y) (\<sigma> p))"
  by (auto simp: smt_assert_def smt_equivalent_def smt_carry_def maj3_def)

lemma smt_and2_sem:
  "command_true \<sigma> (smt_assert (smt_equivalent (SVar c) (smt_and [SVar x, SVar y]))) = (\<sigma> c = (\<sigma> x \<and> \<sigma> y))"
  by (auto simp: smt_assert_def smt_equivalent_def smt_and_def)

lemma smt_xor3_sem:
  "command_true \<sigma> (smt_assert (smt_equivalent (SVar r) (smt_xor [SVar x, SVar y, SVar c])))
     = (\<sigma> r = xor3 (\<sigma> x) (\<sigma> y) (\<sigma> c))"
  by (auto simp: smt_assert_def smt_equivalent_def smt_xor_def xor3_def)

lemma smt_xor2_sem:
  "command_true \<sigma> (smt_assert (smt_equivalent (SVar r) (smt_xor [SVar x, SVar y]))) = (\<sigma> r = (\<sigma> x \<noteq> \<sigma> y))"
  by (auto simp: smt_assert_def smt_equivalent_def smt_xor_def)

lemma carries_part_smt:
  assumes len: "length x = w" "length y = w" "length c = w - 1"
  shows "smt_true \<sigma> (map (\<lambda>(ci, xi, yi, p). smt_assert (smt_equivalent (SVar ci) (smt_carry xi yi p)))
                            (zip c (zip (tl x) (zip (tl y) (tl c)))))
         \<longleftrightarrow> (\<forall>i. i + 2 < w \<longrightarrow> \<sigma> (c ! i) = maj3 (\<sigma> (x ! (i + 1))) (\<sigma> (y ! (i + 1))) (\<sigma> (c ! (i + 1))))"
proof -
  have "smt_true \<sigma> (map (\<lambda>(ci, xi, yi, p). smt_assert (smt_equivalent (SVar ci) (smt_carry xi yi p)))
                            (zip c (zip (tl x) (zip (tl y) (tl c)))))
        \<longleftrightarrow> cnf_true \<sigma> (concat (map (\<lambda>(ci, xi, yi, p). cnf_carry ci xi yi p)
                            (zip c (zip (tl x) (zip (tl y) (tl c))))))"
    unfolding smt_true_map cnf_true_concat_map ball_zip4 by (simp only: split cnf_carry_sem smt_carry_sem)
  then show ?thesis unfolding carries_part [OF len] .
qed

lemma results_part_smt:
  assumes len: "length out = w" "length x = w" "length y = w" "length c = w - 1"
  shows "smt_true \<sigma> (map (\<lambda>(r, xi, yi, ci). smt_assert (smt_equivalent (SVar r) (smt_xor [SVar xi, SVar yi, SVar ci])))
                      (zip out (zip x (zip y c))))
         \<longleftrightarrow> (\<forall>i. i + 1 < w \<longrightarrow> \<sigma> (out ! i) = xor3 (\<sigma> (x ! i)) (\<sigma> (y ! i)) (\<sigma> (c ! i)))"
proof -
  have "smt_true \<sigma> (map (\<lambda>(r, xi, yi, ci). smt_assert (smt_equivalent (SVar r) (smt_xor [SVar xi, SVar yi, SVar ci])))
                      (zip out (zip x (zip y c))))
        \<longleftrightarrow> cnf_true \<sigma> (map (\<lambda>(r, xi, yi, ci). XorClause [Neg r, Pos xi, Pos yi, Pos ci])
                      (zip out (zip x (zip y c))))"
    unfolding smt_true_map cnf_true_map ball_zip4 by (simp only: split xor_clause4_sem smt_xor3_sem)
  then show ?thesis unfolding results_part_cms [OF len] .
qed

lemma smt_modadd_sem:
  assumes len: "length out = w" "length x = w" "length y = w" "length c = w - 1" "2 \<le> w"
  shows "\<exists>cs. smt_modadd out x y c = Inr cs \<and> (\<forall>\<sigma>. smt_true \<sigma> cs = carry_chain \<sigma> out x y c)"
proof -
  have ne: "c \<noteq> []" "x \<noteq> []" "y \<noteq> []" "out \<noteq> []" using len by auto
  have w2: "w - 1 - 1 = w - 2" by simp
  let ?A = "map (\<lambda>(ci, xi, yi, p). smt_assert (smt_equivalent (SVar ci) (smt_carry xi yi p)))
                (zip c (zip (tl x) (zip (tl y) (tl c))))"
  let ?B = "[smt_assert (smt_equivalent (SVar (c ! (w - 2))) (smt_and [SVar (x ! (w - 1)), SVar (y ! (w - 1))]))]"
  let ?C = "map (\<lambda>(r, xi, yi, ci). smt_assert (smt_equivalent (SVar r) (smt_xor [SVar xi, SVar yi, SVar ci])))
                (zip out (zip x (zip y c)))"
  let ?D = "[smt_assert (smt_equivalent (SVar (out ! (w - 1))) (smt_xor [SVar (x ! (w - 1)), SVar (y ! (w - 1))]))]"
  have eq: "smt_modadd out x y c = Inr (?A @ ?B @ ?C @ ?D)"
    unfolding smt_modadd_def Let_def py_last_nonempty [OF ne(1)] py_last_nonempty [OF ne(2)]
      py_last_nonempty [OF ne(3)] py_last_nonempty [OF ne(4)] ebind_Inr len w2 ..
  have "smt_true \<sigma> (?A @ ?B @ ?C @ ?D) = carry_chain \<sigma> out x y c" for \<sigma>
    unfolding smt_true_append carries_part_smt [OF len(2,3,4)] results_part_smt [OF len(1,2,3,4)]
      carry_chain_index len
    by (simp only: smt_true_Cons smt_true_Nil smt_and2_sem smt_xor2_sem) blast
  with eq show ?thesis by blast
qed

section \<open>The carry chain of one addition\<close>

text \<open>
  C2, as the specification words it. For \<open>w = 2\<close>, operand bits \<open>x = 10\<close> and \<open>y = 10\<close>: the
  assignment with every carry and output bit \<open>0\<close> satisfies the emitted SMT assertions
  (\<open>2 + 2 = 0\<close> modulo 4), but not the relations with the indices of the claim, which ask
  for \<open>c_0 = MAJ(x_0, y_0, c_1) = 1\<close>.
\<close>

theorem carry_chain_as_claimed_counterexample:
  "case smt_modadd [''o0'', ''o1''] [''x0'', ''x1''] [''y0'', ''y1''] [''c0''] of
     Inl e \<Rightarrow> False
   | Inr assertions \<Rightarrow>
       smt_true (\<lambda>v. v \<in> set [''x0'', ''y0'']) assertions
       \<and> \<not> claimed_carry_chain (\<lambda>v. v \<in> set [''x0'', ''y0''])
             [''o0'', ''o1''] [''x0'', ''x1''] [''y0'', ''y1''] [''c0'']"
  by code_simp

text \<open>
  C2, amended. For \<open>w \<ge> 2\<close> the CMS, SAT and SMT encodings of one addition return
  constraints that state exactly: \<open>c_(w-2) = AND(x_(w-1), y_(w-1))\<close>;
  \<open>c_i = MAJ(x_(i+1), y_(i+1), c_(i+1))\<close> for \<open>i\<close> from \<open>w - 3\<close> down to 0;
  \<open>out_i = XOR(x_i, y_i, c_i)\<close> for \<open>i \<le> w - 2\<close>; and \<open>out_(w-1) = XOR(x_(w-1), y_(w-1))\<close>.
  The SAT encoding adds, for \<open>i \<le> w - 2\<close>, that its intermediate variable is \<open>XOR(x_i, y_i)\<close>.
\<close>

theorem carry_chain_constraints:
  assumes "2 \<le> w" "length out = w" "length x = w" "length y = w" "length c = w - 1" "length m = w"
  shows "(\<exists>cs. cms_modadd out x y c = Inr cs \<and> (\<forall>\<sigma>. cnf_true \<sigma> cs = carry_chain \<sigma> out x y c))
       \<and> (\<exists>cs. sat_modadd out x y c m = Inr cs
                \<and> (\<forall>\<sigma>. cnf_true \<sigma> cs = (carry_chain \<sigma> out x y c \<and> intermediate_xors \<sigma> m x y)))
       \<and> (\<exists>cs. smt_modadd out x y c = Inr cs \<and> (\<forall>\<sigma>. smt_true \<sigma> cs = carry_chain \<sigma> out x y c))"
  using cms_modadd_sem [of out w x y c] sat_modadd_sem [of out w x y c m] smt_modadd_sem [of out w x y c]
    assms by blast

theorem carry_chain_constraints_witness:
  "(\<exists>cs. cms_modadd [''o0'', ''o1'', ''o2''] [''x0'', ''x1'', ''x2''] [''y0'', ''y1'', ''y2''] [''c0'', ''c1''] = Inr cs
         \<and> cnf_true (\<lambda>v. v \<in> set [''x1'', ''x2'', ''y2'', ''c0'', ''c1'', ''o0'', ''m1'']) cs)
   \<and> (\<exists>cs. sat_modadd [''o0'', ''o1'', ''o2''] [''x0'', ''x1'', ''x2''] [''y0'', ''y1'', ''y2''] [''c0'', ''c1'']
             [''m0'', ''m1'', ''m2''] = Inr cs
         \<and> cnf_true (\<lambda>v. v \<in> set [''x1'', ''x2'', ''y2'', ''c0'', ''c1'', ''o0'', ''m1'']) cs)
   \<and> (\<exists>cs. smt_modadd [''o0'', ''o1'', ''o2''] [''x0'', ''x1'', ''x2''] [''y0'', ''y1'', ''y2''] [''c0'', ''c1''] = Inr cs
         \<and> smt_true (\<lambda>v. v \<in> set [''x1'', ''x2'', ''y2'', ''c0'', ''c1'', ''o0'', ''m1'']) cs)"
proof -
  let ?s = "\<lambda>v. v \<in> set [''x1'', ''x2'', ''y2'', ''c0'', ''c1'', ''o0'', ''m1'']"
  have ch: "carry_chain ?s [''o0'', ''o1'', ''o2''] [''x0'', ''x1'', ''x2''] [''y0'', ''y1'', ''y2''] [''c0'', ''c1'']"
    by code_simp
  have im: "intermediate_xors ?s [''m0'', ''m1'', ''m2''] [''x0'', ''x1'', ''x2''] [''y0'', ''y1'', ''y2'']"
    by code_simp
  have "(2::nat) \<le> 3" "length [''o0'', ''o1'', ''o2''] = 3" "length [''x0'', ''x1'', ''x2''] = 3"
    "length [''y0'', ''y1'', ''y2''] = 3" "length [''c0'', ''c1''] = 3 - 1" "length [''m0'', ''m1'', ''m2''] = 3"
    by simp_all
  from carry_chain_constraints [OF this] ch im show ?thesis
    by blast
qed

section \<open>Carry chains and the adder\<close>

lemma carry_chain_bl:
  assumes len: "length out = w" "length x = w" "length y = w" "length c = w - 1" "2 \<le> w"
  shows "carry_chain \<sigma> out x y c = chain_bl (map \<sigma> x) (map \<sigma> y) (map \<sigma> out) (map \<sigma> c)"
proof -
  have a: "map \<sigma> c ! (w - 2) = \<sigma> (c ! (w - 2))" "map \<sigma> x ! (w - 1) = \<sigma> (x ! (w - 1))"
    "map \<sigma> y ! (w - 1) = \<sigma> (y ! (w - 1))" "map \<sigma> out ! (w - 1) = \<sigma> (out ! (w - 1))"
    using len by simp_all
  have b: "(i + 2 < w \<longrightarrow> map \<sigma> c ! i = maj3 (map \<sigma> x ! (i + 1)) (map \<sigma> y ! (i + 1)) (map \<sigma> c ! (i + 1)))
           = (i + 2 < w \<longrightarrow> \<sigma> (c ! i) = maj3 (\<sigma> (x ! (i + 1))) (\<sigma> (y ! (i + 1))) (\<sigma> (c ! (i + 1))))" for i
    using len by auto
  have c: "(i + 1 < w \<longrightarrow> map \<sigma> out ! i = xor3 (map \<sigma> x ! i) (map \<sigma> y ! i) (map \<sigma> c ! i))
           = (i + 1 < w \<longrightarrow> \<sigma> (out ! i) = xor3 (\<sigma> (x ! i)) (\<sigma> (y ! i)) (\<sigma> (c ! i)))" for i
    using len by auto
  show ?thesis
    unfolding carry_chain_index chain_bl_def Let_def length_map len a b c ..
qed

lemma carry_chain_iff:
  assumes len: "length out = w" "length x = w" "length y = w" "length c = w - 1" "2 \<le> w"
  shows "carry_chain \<sigma> out x y c \<longleftrightarrow>
           map \<sigma> c = carries (map \<sigma> x) (map \<sigma> y) \<and> map \<sigma> out = sumbits (map \<sigma> x) (map \<sigma> y)"
  unfolding carry_chain_bl [OF len]
  by (rule chain_bl_iff [of _ w]) (simp_all add: len)

section \<open>Two's complement\<close>

lemma allzero_drop:
  assumes "i < length B"
  shows "list_all (\<lambda>b. \<not> b) (drop i B) = (\<not> B ! i \<and> list_all (\<lambda>b. \<not> b) (drop (Suc i) B))"
proof -
  have "drop i B = B ! i # drop (Suc i) B"
    using assms by (simp add: Cons_nth_drop_Suc)
  then show ?thesis by simp
qed

lemma twocomp_carries_nth:
  "i + 1 < length B \<Longrightarrow> twocomp_carries B ! i = list_all (\<lambda>b. \<not> b) (drop (Suc i) B)"
proof -
  assume "i + 1 < length B"
  then have "i < length B - 1" by simp
  then show ?thesis unfolding twocomp_carries_def by (simp del: upt_Suc)
qed

lemma twocomp_bits_nth:
  "i < length B \<Longrightarrow> twocomp_bits B ! i = ((\<not> B ! i) \<noteq> list_all (\<lambda>b. \<not> b) (drop (Suc i) B))"
  unfolding twocomp_bits_def by (simp del: upt_Suc)

lemma length_twocomp [simp]:
  "length (twocomp_carries B) = length B - 1" "length (twocomp_bits B) = length B"
  by (simp_all add: twocomp_carries_def twocomp_bits_def)

lemma twocomp_down:
  assumes len: "length B = w" "length T = w - 1" "2 \<le> w"
    and last: "T ! (w - 2) \<noteq> B ! (w - 1)"
    and step: "\<forall>i. i + 2 < w \<longrightarrow> T ! i = (\<not> B ! (i + 1) \<and> T ! (i + 1))"
  shows "d + 2 \<le> w \<Longrightarrow> T ! (w - 2 - d) = list_all (\<lambda>b. \<not> b) (drop (Suc (w - 2 - d)) B)"
proof (induction d)
  case 0
  have "Suc (w - 2) = w - 1" using len(3) by simp
  moreover have "list_all (\<lambda>b. \<not> b) (drop (w - 1) B) = (\<not> B ! (w - 1) \<and> list_all (\<lambda>b. \<not> b) (drop (Suc (w - 1)) B))"
    using len by (intro allzero_drop) auto
  moreover have "drop (Suc (w - 1)) B = []" using len by auto
  ultimately show ?case using last by auto
next
  case (Suc d)
  let ?i = "w - 2 - Suc d"
  have i: "?i + 2 < w" "Suc ?i = w - 2 - d" using Suc.prems by auto
  have "T ! ?i = (\<not> B ! (?i + 1) \<and> T ! (?i + 1))"
    using step i(1) by blast
  also have "T ! (?i + 1) = list_all (\<lambda>b. \<not> b) (drop (Suc (w - 2 - d)) B)"
    using Suc.IH Suc.prems i(2) by simp
  also have "(\<not> B ! (?i + 1) \<and> list_all (\<lambda>b. \<not> b) (drop (Suc (w - 2 - d)) B))
              = list_all (\<lambda>b. \<not> b) (drop (Suc ?i) B)"
    using allzero_drop [of "Suc ?i" B] len i by simp
  finally show ?case .
qed

lemma twocomp_bl_iff:
  assumes len: "length B = w" "length R = w" "length T = w - 1" "2 \<le> w"
  shows "((\<forall>i. i + 2 < w \<longrightarrow> T ! i = (\<not> B ! (i + 1) \<and> T ! (i + 1)))
          \<and> T ! (w - 2) \<noteq> B ! (w - 1)
          \<and> (\<forall>i. i + 1 < w \<longrightarrow> R ! i = ((\<not> B ! i) \<noteq> T ! i))
          \<and> R ! (w - 1) = B ! (w - 1))
         \<longleftrightarrow> T = twocomp_carries B \<and> R = twocomp_bits B"
    (is "?L \<longleftrightarrow> ?R")
proof
  assume L: ?L
  then have last: "T ! (w - 2) \<noteq> B ! (w - 1)"
    and step: "\<forall>i. i + 2 < w \<longrightarrow> T ! i = (\<not> B ! (i + 1) \<and> T ! (i + 1))"
    and rs: "\<forall>i. i + 1 < w \<longrightarrow> R ! i = ((\<not> B ! i) \<noteq> T ! i)"
    and rl: "R ! (w - 1) = B ! (w - 1)"
    by auto
  have ts: "T ! i = list_all (\<lambda>b. \<not> b) (drop (Suc i) B)" if "i + 1 < w" for i
  proof -
    have "(w - 2 - i) + 2 \<le> w" "w - 2 - (w - 2 - i) = i" using that by auto
    then show ?thesis
      using twocomp_down [OF len(1,3,4) last step, of "w - 2 - i"] by simp
  qed
  have T: "T = twocomp_carries B"
    by (rule nth_equalityI) (use len ts in \<open>auto simp: twocomp_carries_nth\<close>)
  have "R ! i = twocomp_bits B ! i" if "i < w" for i
  proof (cases "i + 1 < w")
    case True
    then show ?thesis using rs ts len by (simp add: twocomp_bits_nth)
  next
    case False
    then have i: "i = w - 1" using that by simp
    have "drop (Suc (w - 1)) B = []" using len by auto
    then show ?thesis using rl len that unfolding i by (simp add: twocomp_bits_nth)
  qed
  then have "R = twocomp_bits B"
    by (intro nth_equalityI) (use len in auto)
  with T show ?R ..
next
  assume R: ?R
  have ts: "T ! i = list_all (\<lambda>b. \<not> b) (drop (Suc i) B)" if "i + 1 < w" for i
    using R that len by (simp add: twocomp_carries_nth)
  have e: "drop (Suc (w - 1)) B = []" using len by auto
  have "Suc (w - 2) = w - 1" using len by simp
  then have last: "T ! (w - 2) \<noteq> B ! (w - 1)"
    using ts [of "w - 2"] allzero_drop [of "w - 1" B] len e by auto
  have step: "T ! i = (\<not> B ! (i + 1) \<and> T ! (i + 1))" if "i + 2 < w" for i
    using ts [of i] ts [of "i + 1"] allzero_drop [of "Suc i" B] that len by simp
  have rs: "R ! i = ((\<not> B ! i) \<noteq> T ! i)" if "i + 1 < w" for i
    using R ts [of i] that len by (simp add: twocomp_bits_nth)
  have rl: "R ! (w - 1) = B ! (w - 1)"
    using R len e by (simp add: twocomp_bits_nth)
  show ?L
    using last step rs rl by blast
qed

lemma twocomp_chain_iff:
  assumes len: "length b = w" "length res = w" "length tc = w - 1" "2 \<le> w"
  shows "twocomp_chain \<sigma> res b tc \<longleftrightarrow>
           map \<sigma> tc = twocomp_carries (map \<sigma> b) \<and> map \<sigma> res = twocomp_bits (map \<sigma> b)"
proof -
  have a: "map \<sigma> tc ! (w - 2) = \<sigma> (tc ! (w - 2))" "map \<sigma> b ! (w - 1) = \<sigma> (b ! (w - 1))"
    "map \<sigma> res ! (w - 1) = \<sigma> (res ! (w - 1))"
    using len by simp_all
  have b: "(i + 2 < w \<longrightarrow> map \<sigma> tc ! i = (\<not> map \<sigma> b ! (i + 1) \<and> map \<sigma> tc ! (i + 1)))
           = (i + 2 < w \<longrightarrow> \<sigma> (tc ! i) = (\<not> \<sigma> (b ! (i + 1)) \<and> \<sigma> (tc ! (i + 1))))" for i
    using len by auto
  have c: "(i + 1 < w \<longrightarrow> map \<sigma> res ! i = ((\<not> map \<sigma> b ! i) \<noteq> map \<sigma> tc ! i))
           = (i + 1 < w \<longrightarrow> \<sigma> (res ! i) = ((\<not> \<sigma> (b ! i)) \<noteq> \<sigma> (tc ! i)))" for i
    using len by auto
  have "twocomp_chain \<sigma> res b tc \<longleftrightarrow>
         ((\<forall>i. i + 2 < w \<longrightarrow> map \<sigma> tc ! i = (\<not> map \<sigma> b ! (i + 1) \<and> map \<sigma> tc ! (i + 1)))
          \<and> map \<sigma> tc ! (w - 2) \<noteq> map \<sigma> b ! (w - 1)
          \<and> (\<forall>i. i + 1 < w \<longrightarrow> map \<sigma> res ! i = ((\<not> map \<sigma> b ! i) \<noteq> map \<sigma> tc ! i))
          \<and> map \<sigma> res ! (w - 1) = map \<sigma> b ! (w - 1))"
    unfolding twocomp_chain_def Let_def len a b c ..
  also have "\<dots> \<longleftrightarrow> map \<sigma> tc = twocomp_carries (map \<sigma> b) \<and> map \<sigma> res = twocomp_bits (map \<sigma> b)"
    by (rule twocomp_bl_iff [of _ w]) (simp_all add: len)
  finally show ?thesis .
qed

lemma allzero_val: "list_all (\<lambda>b. \<not> b) B \<longleftrightarrow> bl_val B = 0"
  by (induction B) auto

lemma twocomp_bits_Cons:
  "twocomp_bits (b # B) = ((\<not> b) \<noteq> list_all (\<lambda>b. \<not> b) B) # twocomp_bits B"
proof (rule nth_equalityI)
  show "length (twocomp_bits (b # B)) = length (((\<not> b) \<noteq> list_all (\<lambda>b. \<not> b) B) # twocomp_bits B)"
    by simp
next
  fix i assume "i < length (twocomp_bits (b # B))"
  then have i: "i < Suc (length B)" by simp
  show "twocomp_bits (b # B) ! i = (((\<not> b) \<noteq> list_all (\<lambda>b. \<not> b) B) # twocomp_bits B) ! i"
  proof (cases i)
    case 0
    then show ?thesis by (simp add: twocomp_bits_nth)
  next
    case (Suc j)
    then show ?thesis using i by (simp add: twocomp_bits_nth)
  qed
qed

lemma twocomp_bits_val:
  "bl_val (twocomp_bits B) = (if bl_val B = 0 then 0 else 2 ^ length B - bl_val B)"
proof (induction B)
  case Nil
  then show ?case by (simp add: twocomp_bits_def)
next
  case (Cons b B)
  have lt: "bl_val B < 2 ^ length B" by (rule bl_val_lt)
  show ?case
    using Cons.IH lt by (cases b) (auto simp: twocomp_bits_Cons allzero_val)
qed

lemma twocomp_bits_mod:
  "bl_val (twocomp_bits B) = (2 ^ length B - bl_val B) mod 2 ^ length B"
  using bl_val_lt [of B] by (simp add: twocomp_bits_val)

section \<open>Changing an assignment on auxiliary variables\<close>

lemma upd_notin: "v \<notin> set ks \<Longrightarrow> upd \<sigma> ks vs v = \<sigma> v"
proof -
  assume "v \<notin> set ks"
  then have "v \<notin> fst ` set (zip ks vs)"
    by (auto dest: set_zip_leftD)
  then have "map_of (zip ks vs) v = None"
    by (simp add: map_of_eq_None_iff)
  then show ?thesis by (simp add: upd_def)
qed

lemma upd_map_other: "set xs \<inter> set ks = {} \<Longrightarrow> map (upd \<sigma> ks vs) xs = map \<sigma> xs"
proof -
  assume d: "set xs \<inter> set ks = {}"
  have "\<forall>x \<in> set xs. upd \<sigma> ks vs x = \<sigma> x"
    using d by (intro ballI upd_notin) auto
  then show ?thesis by simp
qed

lemma upd_map_same:
  assumes "distinct ks" "length ks = length vs"
  shows "map (upd \<sigma> ks vs) ks = vs"
proof (rule nth_equalityI)
  show "length (map (upd \<sigma> ks vs) ks) = length vs" using assms by simp
next
  fix i assume "i < length (map (upd \<sigma> ks vs) ks)"
  then have i: "i < length vs" using assms by simp
  have "map_of (zip ks vs) (ks ! i) = Some (vs ! i)"
    using assms i by (intro map_of_zip_nth) auto
  then show "map (upd \<sigma> ks vs) ks ! i = vs ! i"
    using i assms by (simp add: upd_def)
qed

lemma upd_map_append:
  assumes "distinct (ks1 @ ks2)" "length ks1 = length vs1" "length ks2 = length vs2"
  shows "map (upd \<sigma> (ks1 @ ks2) (vs1 @ vs2)) ks1 = vs1" "map (upd \<sigma> (ks1 @ ks2) (vs1 @ vs2)) ks2 = vs2"
proof -
  have "map (upd \<sigma> (ks1 @ ks2) (vs1 @ vs2)) (ks1 @ ks2) = vs1 @ vs2"
    using assms by (intro upd_map_same) auto
  then have "map (upd \<sigma> (ks1 @ ks2) (vs1 @ vs2)) ks1 @ map (upd \<sigma> (ks1 @ ks2) (vs1 @ vs2)) ks2 = vs1 @ vs2"
    by simp
  then show "map (upd \<sigma> (ks1 @ ks2) (vs1 @ vs2)) ks1 = vs1" "map (upd \<sigma> (ks1 @ ks2) (vs1 @ vs2)) ks2 = vs2"
    using assms(2) by simp_all
qed

lemma agree_off_refl: "agree_off A \<sigma> \<sigma>"
  by (simp add: agree_off_def)

lemma agree_off_upd: "agree_off ks \<sigma> (upd \<sigma> ks vs)"
  by (simp add: agree_off_def upd_notin)

lemma agree_off_trans:
  "agree_off A \<sigma> \<sigma>1 \<Longrightarrow> agree_off B \<sigma>1 \<sigma>2 \<Longrightarrow> agree_off (A @ B) \<sigma> \<sigma>2"
  by (simp add: agree_off_def)

lemma agree_off_mono: "agree_off A \<sigma> \<sigma>' \<Longrightarrow> set A \<subseteq> set B \<Longrightarrow> agree_off B \<sigma> \<sigma>'"
  by (auto simp: agree_off_def)

lemma agree_off_map: "agree_off A \<sigma> \<sigma>' \<Longrightarrow> set xs \<inter> set A = {} \<Longrightarrow> map \<sigma>' xs = map \<sigma> xs"
proof -
  assume a: "agree_off A \<sigma> \<sigma>'" and d: "set xs \<inter> set A = {}"
  have "\<forall>x \<in> set xs. \<sigma>' x = \<sigma> x"
  proof
    fix x assume "x \<in> set xs"
    with d have "x \<notin> set A" by auto
    with a show "\<sigma>' x = \<sigma> x" by (simp add: agree_off_def)
  qed
  then show ?thesis by simp
qed

lemma agree_off_drop:
  assumes "agree_off (A @ B) \<sigma> \<sigma>'" "map \<sigma>' B = map \<sigma> B"
  shows "agree_off A \<sigma> \<sigma>'"
  unfolding agree_off_def
proof (intro allI impI)
  fix v assume v: "v \<notin> set A"
  show "\<sigma>' v = \<sigma> v"
  proof (cases "v \<in> set B")
    case True
    from assms(2) have "\<forall>x \<in> set B. \<sigma>' x = \<sigma> x" by simp
    with True show ?thesis by blast
  next
    case False
    with v have "v \<notin> set (A @ B)" by simp
    with assms(1) show ?thesis unfolding agree_off_def by blast
  qed
qed

section \<open>Chains of two-operand stages\<close>

lemma chain_sound:
  assumes ch: "chain_outs f \<sigma> outs ins" and n: "length outs < length ins"
  shows "i < length outs \<Longrightarrow> map \<sigma> (outs ! i) = chain_value f (map (map \<sigma>) ins) i"
proof (induction i)
  case 0
  from 0 have "0 < length outs" by simp
  with n have "0 < length ins" "Suc 0 < length ins" by linarith+
  then have "map (map \<sigma>) ins ! 0 = map \<sigma> (ins ! 0)" "map (map \<sigma>) ins ! 1 = map \<sigma> (ins ! 1)"
    by simp_all
  moreover have "map \<sigma> (outs ! 0) = f (map \<sigma> (ins ! 0)) (map \<sigma> (ins ! 1))"
    using ch 0 by (simp add: chain_outs_def chain_left_def)
  ultimately show ?case by simp
next
  case (Suc i)
  have "i + 2 < length ins" using Suc.prems n by simp
  then have m: "map (map \<sigma>) ins ! (i + 2) = map \<sigma> (ins ! (i + 2))" by simp
  have "map \<sigma> (outs ! Suc i) = f (map \<sigma> (outs ! i)) (map \<sigma> (ins ! (i + 2)))"
    using ch Suc.prems by (simp add: chain_outs_def chain_left_def)
  then show ?case using Suc m by simp
qed

lemma distinct_concat_stage:
  "distinct (concat (map h [0..<n])) \<Longrightarrow> j < n \<Longrightarrow>
     distinct (h j) \<and> (\<forall>i<j. set (h i) \<inter> set (h j) = {})"
proof (induction n)
  case 0
  then show ?case by simp
next
  case (Suc n)
  from Suc.prems(1) have d: "distinct (concat (map h [0..<n]))" "distinct (h n)"
    "set (concat (map h [0..<n])) \<inter> set (h n) = {}"
    by simp_all
  show ?case
  proof (cases "j = n")
    case True
    have "set (h i) \<inter> set (h n) = {}" if "i < n" for i
    proof -
      have "set (h i) \<subseteq> set (concat (map h [0..<n]))" using that by auto
      with d(3) show ?thesis by blast
    qed
    with d(2) True show ?thesis by simp
  next
    case False
    with Suc.prems(2) have "j < n" by simp
    with Suc.IH d(1) show ?thesis by simp
  qed
qed

lemma chain_complete_prefix:
  fixes f g :: "bool list \<Rightarrow> bool list \<Rightarrow> bool list"
  assumes lens: "\<forall>i<n. length (outs ! i) = length (chain_value f vs i)"
                "\<forall>i<n. length (auxs ! i) = length (g (chain_left_value f vs i) (vs ! (i + 1)))"
    and dist: "distinct (concat (map (\<lambda>i. auxs ! i @ outs ! i) [0..<n]))"
  shows "m \<le> n \<Longrightarrow>
     \<exists>\<sigma>'. agree_off (concat (map (\<lambda>i. auxs ! i @ outs ! i) [0..<m])) \<sigma> \<sigma>'
        \<and> (\<forall>i<m. map \<sigma>' (outs ! i) = chain_value f vs i
                 \<and> map \<sigma>' (auxs ! i) = g (chain_left_value f vs i) (vs ! (i + 1)))"
proof (induction m)
  case 0
  show ?case using agree_off_refl [of "[]" \<sigma>] by auto
next
  case (Suc m)
  then have m: "m < n" by simp
  from Suc obtain \<sigma>1 where ag: "agree_off (concat (map (\<lambda>i. auxs ! i @ outs ! i) [0..<m])) \<sigma> \<sigma>1"
    and old: "\<forall>i<m. map \<sigma>1 (outs ! i) = chain_value f vs i
                 \<and> map \<sigma>1 (auxs ! i) = g (chain_left_value f vs i) (vs ! (i + 1))"
    by auto
  let ?ks = "auxs ! m @ outs ! m"
  let ?G = "g (chain_left_value f vs m) (vs ! (m + 1))"
  let ?F = "chain_value f vs m"
  let ?\<sigma>2 = "upd \<sigma>1 ?ks (?G @ ?F)"
  from distinct_concat_stage [OF dist m]
  have dk: "distinct ?ks" and dj: "\<forall>i<m. set (auxs ! i @ outs ! i) \<inter> set ?ks = {}"
    by auto
  have l1: "length (auxs ! m) = length ?G" and l2: "length (outs ! m) = length ?F"
    using lens m by auto
  have new: "map ?\<sigma>2 (auxs ! m) = ?G" "map ?\<sigma>2 (outs ! m) = ?F"
    using upd_map_append [OF dk l1 l2] by auto
  have keep: "map ?\<sigma>2 (outs ! i) = map \<sigma>1 (outs ! i) \<and> map ?\<sigma>2 (auxs ! i) = map \<sigma>1 (auxs ! i)" if "i < m" for i
  proof -
    from dj that have "set (auxs ! i @ outs ! i) \<inter> set ?ks = {}" by blast
    then have "set (outs ! i) \<inter> set ?ks = {}" "set (auxs ! i) \<inter> set ?ks = {}" by auto
    then show ?thesis by (simp add: upd_map_other)
  qed
  have all: "\<forall>i<Suc m. map ?\<sigma>2 (outs ! i) = chain_value f vs i
                 \<and> map ?\<sigma>2 (auxs ! i) = g (chain_left_value f vs i) (vs ! (i + 1))"
  proof (intro allI impI)
    fix i assume "i < Suc m"
    then consider "i < m" | "i = m" by linarith
    then show "map ?\<sigma>2 (outs ! i) = chain_value f vs i
                 \<and> map ?\<sigma>2 (auxs ! i) = g (chain_left_value f vs i) (vs ! (i + 1))"
    proof cases
      case 1
      with keep old show ?thesis by simp
    next
      case 2
      with new show ?thesis by simp
    qed
  qed
  have "agree_off (concat (map (\<lambda>i. auxs ! i @ outs ! i) [0..<m]) @ ?ks) \<sigma> ?\<sigma>2"
    using ag agree_off_upd by (rule agree_off_trans)
  then have "agree_off (concat (map (\<lambda>i. auxs ! i @ outs ! i) [0..<Suc m])) \<sigma> ?\<sigma>2"
    by simp
  with all show ?case by blast
qed

lemma chain_complete:
  fixes f g :: "bool list \<Rightarrow> bool list \<Rightarrow> bool list"
  assumes n: "length outs = n" "length ins = n + 1"
    and vs: "vs = map (map \<sigma>) ins"
    and lens: "\<forall>i<n. length (outs ! i) = length (chain_value f vs i)"
              "\<forall>i<n. length (auxs ! i) = length (g (chain_left_value f vs i) (vs ! (i + 1)))"
    and dist: "distinct (concat (map (\<lambda>i. auxs ! i @ outs ! i) [0..<n]))"
    and disj: "set (concat (map (\<lambda>i. auxs ! i @ outs ! i) [0..<n])) \<inter> set (concat ins) = {}"
  shows "\<exists>\<sigma>'. agree_off (concat (map (\<lambda>i. auxs ! i @ outs ! i) [0..<n])) \<sigma> \<sigma>'
        \<and> chain_outs f \<sigma>' outs ins \<and> chain_auxs g \<sigma>' outs ins auxs
        \<and> (\<forall>i<n. map \<sigma>' (outs ! i) = chain_value f vs i)"
proof -
  let ?A = "concat (map (\<lambda>i. auxs ! i @ outs ! i) [0..<n])"
  from chain_complete_prefix [OF lens dist, of n \<sigma>]
  obtain \<sigma>' where ag: "agree_off ?A \<sigma> \<sigma>'"
    and st: "\<forall>i<n. map \<sigma>' (outs ! i) = chain_value f vs i
                 \<and> map \<sigma>' (auxs ! i) = g (chain_left_value f vs i) (vs ! (i + 1))"
    by auto
  have inp: "map \<sigma>' (ins ! j) = vs ! j" if "j \<le> n" for j
  proof -
    have j: "j < length ins" using that n by simp
    then have "ins ! j \<in> set ins" by (rule nth_mem)
    then have "set (ins ! j) \<subseteq> set (concat ins)" by auto
    with disj have "set (ins ! j) \<inter> set ?A = {}" by blast
    with ag have "map \<sigma>' (ins ! j) = map \<sigma> (ins ! j)" by (rule agree_off_map)
    then show ?thesis using j vs by simp
  qed
  have left: "map \<sigma>' (chain_left outs ins i) = chain_left_value f vs i" if "i < n" for i
  proof (cases i)
    case 0
    then show ?thesis using inp [of 0] by (simp add: chain_left_def chain_left_value_def)
  next
    case (Suc k)
    then have "k < n" using that by simp
    with st have "map \<sigma>' (outs ! k) = chain_value f vs k" by simp
    then show ?thesis using Suc by (simp add: chain_left_def chain_left_value_def)
  qed
  have val: "chain_value f vs i = f (chain_left_value f vs i) (vs ! (i + 1))" for i
    by (cases i) (simp_all add: chain_left_value_def)
  have "chain_outs f \<sigma>' outs ins"
    unfolding chain_outs_def n
  proof (intro allI impI)
    fix i assume i: "i < n"
    then show "map \<sigma>' (outs ! i) = f (map \<sigma>' (chain_left outs ins i)) (map \<sigma>' (ins ! (i + 1)))"
      using st left [OF i] inp [of "i + 1"] val [of i] by simp
  qed
  moreover have "chain_auxs g \<sigma>' outs ins auxs"
    unfolding chain_auxs_def n
  proof (intro allI impI)
    fix i assume i: "i < n"
    then show "map \<sigma>' (auxs ! i) = g (map \<sigma>' (chain_left outs ins i)) (map \<sigma>' (ins ! (i + 1)))"
      using st left [OF i] inp [of "i + 1"] by simp
  qed
  ultimately show ?thesis using ag st by blast
qed

section \<open>The value of a chain of additions\<close>

lemma chain_value_sumbits:
  assumes "\<forall>j \<le> i + 1. length (vs ! j) = w"
  shows "length (chain_value sumbits vs i) = w
         \<and> bl_val (chain_value sumbits vs i) = (\<Sum>j \<le> i + 1. bl_val (vs ! j)) mod 2 ^ w"
  using assms
proof (induction i)
  case 0
  then have l: "length (vs ! 0) = w" "length (vs ! 1) = w" by auto
  have "{..Suc 0} = {0, Suc 0}" by auto
  then show ?case using l by (simp add: sumbits_mod)
next
  case (Suc i)
  then have ih: "length (chain_value sumbits vs i) = w"
    "bl_val (chain_value sumbits vs i) = (\<Sum>j \<le> i + 1. bl_val (vs ! j)) mod 2 ^ w"
    by auto
  have l: "length (vs ! (i + 2)) = w" using Suc.prems by auto
  have "bl_val (chain_value sumbits vs (Suc i))
          = (bl_val (chain_value sumbits vs i) + bl_val (vs ! (i + 2))) mod 2 ^ w"
    using ih(1) l by (simp add: sumbits_mod)
  also have "\<dots> = ((\<Sum>j \<le> i + 1. bl_val (vs ! j)) + bl_val (vs ! (i + 2))) mod 2 ^ w"
    unfolding ih(2) by (simp add: mod_add_left_eq)
  also have "\<dots> = (\<Sum>j \<le> Suc i + 1. bl_val (vs ! j)) mod 2 ^ w"
    by (simp add: add.commute)
  finally show ?case using ih(1) l by simp
qed

section \<open>The SAT encoding of a sum of several operands\<close>

lemma emap_Inr: "(\<And>x. x \<in> set xs \<Longrightarrow> f x = Inr (h x)) \<Longrightarrow> emap f xs = Inr (map h xs)"
  by (induction xs) simp_all

lemma py_get_0: "xs \<noteq> [] \<Longrightarrow> py_get xs 0 = Inr (xs ! 0)"
  by (simp add: py_get_def)

lemma py_get_1: "1 < length xs \<Longrightarrow> py_get xs 1 = Inr (xs ! 1)"
  by (simp add: py_get_def)

lemma py_get_pred: "0 < i \<Longrightarrow> i \<le> length xs \<Longrightarrow> py_get xs (int i - 1) = Inr (xs ! (i - 1))"
  using py_get_in_range [of "i - 1" xs] by (simp add: of_nat_diff)

lemma py_get_succ: "i + 1 < length xs \<Longrightarrow> py_get xs (int i + 1) = Inr (xs ! (i + 1))"
  using py_get_in_range [of "i + 1" xs] by (simp add: add.commute)

lemma sat_stage_sem:
  assumes "length (outs ! i) = w" "length (chain_left outs ins i) = w" "length (ins ! (i + 1)) = w"
    "length (cars ! i) = w - 1" "length (ints ! i) = w" "2 \<le> w"
  shows "sat_modadd (outs ! i) (chain_left outs ins i) (ins ! (i + 1)) (cars ! i) (ints ! i)
           = Inr (sat_stage outs ins cars ints i)"
    and "cnf_true \<sigma> (sat_stage outs ins cars ints i)
           = (carry_chain \<sigma> (outs ! i) (chain_left outs ins i) (ins ! (i + 1)) (cars ! i)
              \<and> intermediate_xors \<sigma> (ints ! i) (chain_left outs ins i) (ins ! (i + 1)))"
proof -
  from sat_modadd_sem [OF assms] obtain cs where
    cs: "sat_modadd (outs ! i) (chain_left outs ins i) (ins ! (i + 1)) (cars ! i) (ints ! i) = Inr cs"
    and sem: "\<forall>\<sigma>. cnf_true \<sigma> cs = (carry_chain \<sigma> (outs ! i) (chain_left outs ins i) (ins ! (i + 1)) (cars ! i)
              \<and> intermediate_xors \<sigma> (ints ! i) (chain_left outs ins i) (ins ! (i + 1)))"
    by blast
  from cs have e: "sat_stage outs ins cars ints i = cs" by (simp add: sat_stage_def)
  show "sat_modadd (outs ! i) (chain_left outs ins i) (ins ! (i + 1)) (cars ! i) (ints ! i)
           = Inr (sat_stage outs ins cars ints i)"
    using cs e by simp
  show "cnf_true \<sigma> (sat_stage outs ins cars ints i)
           = (carry_chain \<sigma> (outs ! i) (chain_left outs ins i) (ins ! (i + 1)) (cars ! i)
              \<and> intermediate_xors \<sigma> (ints ! i) (chain_left outs ins i) (ins ! (i + 1)))"
    using sem e by simp
qed

lemma sat_modadd_seq_eq:
  assumes n: "length outs = n" "length ins = n + 1" "length cars = n" "length ints = n" "0 < n"
    and w: "2 \<le> w" "\<forall>i<n. length (outs ! i) = w" "\<forall>j\<le>n. length (ins ! j) = w"
      "\<forall>i<n. length (cars ! i) = w - 1" "\<forall>i<n. length (ints ! i) = w"
  shows "sat_modadd_seq outs ins cars ints = Inr (concat (map (sat_stage outs ins cars ints) [0..<n]))"
proof -
  have left: "length (chain_left outs ins i) = w" if "i < n" for i
    using that w by (cases i) (auto simp: chain_left_def)
  have st: "sat_modadd (outs ! i) (chain_left outs ins i) (ins ! (i + 1)) (cars ! i) (ints ! i)
           = Inr (sat_stage outs ins cars ints i)" if "i < n" for i
    using that w left by (intro sat_stage_sem(1) [of _ _ w]) auto
  have ne: "outs \<noteq> []" "ins \<noteq> []" "1 < length ins" "cars \<noteq> []" "ints \<noteq> []"
    using n by auto
  have g0: "py_get outs 0 = Inr (outs ! 0)" "py_get ins 0 = Inr (ins ! 0)" "py_get ins 1 = Inr (ins ! 1)"
    "py_get cars 0 = Inr (cars ! 0)" "py_get ints 0 = Inr (ints ! 0)"
    using ne by (simp_all add: py_get_0 py_get_1)
  have s0: "sat_modadd (outs ! 0) (ins ! 0) (ins ! 1) (cars ! 0) (ints ! 0) = Inr (sat_stage outs ins cars ints 0)"
    using st [of 0] n(5) by (simp add: chain_left_def)
  have rest: "emap (\<lambda>i. ebind (py_get outs (int i)) (\<lambda>oi.
                       ebind (py_get outs (int i - 1)) (\<lambda>op.
                       ebind (py_get ins (int i + 1)) (\<lambda>ii.
                       ebind (py_get cars (int i)) (\<lambda>ci.
                       ebind (py_get ints (int i)) (\<lambda>mi. sat_modadd oi op ii ci mi))))))
                 [1..<n] = Inr (map (sat_stage outs ins cars ints) [1..<n])"
  proof (rule emap_Inr)
    fix i assume "i \<in> set [1..<n]"
    then have i: "0 < i" "i < n" by auto
    have "py_get outs (int i) = Inr (outs ! i)" "py_get outs (int i - 1) = Inr (outs ! (i - 1))"
      "py_get ins (int i + 1) = Inr (ins ! (i + 1))" "py_get cars (int i) = Inr (cars ! i)"
      "py_get ints (int i) = Inr (ints ! i)"
      using i n by (simp_all add: py_get_in_range py_get_pred py_get_succ)
    moreover have "chain_left outs ins i = outs ! (i - 1)" using i by (simp add: chain_left_def)
    ultimately show "ebind (py_get outs (int i)) (\<lambda>oi.
                       ebind (py_get outs (int i - 1)) (\<lambda>op.
                       ebind (py_get ins (int i + 1)) (\<lambda>ii.
                       ebind (py_get cars (int i)) (\<lambda>ci.
                       ebind (py_get ints (int i)) (\<lambda>mi. sat_modadd oi op ii ci mi)))))
                     = Inr (sat_stage outs ins cars ints i)"
      using st [OF i(2)] by simp
  qed
  have "[0..<n] = 0 # [1..<n]" using n(5) by (simp add: upt_conv_Cons)
  then have "concat (map (sat_stage outs ins cars ints) [0..<n])
              = sat_stage outs ins cars ints 0 @ concat (map (sat_stage outs ins cars ints) [1..<n])"
    by simp
  then show ?thesis
    unfolding sat_modadd_seq_def g0 ebind_Inr s0 n(1) rest by simp
qed

lemma mset_concat_interleave:
  "mset (concat (map (\<lambda>i. a i @ b i) xs)) = mset (concat (map a xs)) + mset (concat (map b xs))"
  by (induction xs) auto

lemma agree_off_set:
  assumes "agree_off L \<sigma> \<sigma>'" "\<forall>v \<in> set B. \<sigma>' v = \<sigma> v" "set L \<subseteq> set A \<union> set B"
  shows "agree_off A \<sigma> \<sigma>'"
  unfolding agree_off_def
proof (intro allI impI)
  fix v assume v: "v \<notin> set A"
  show "\<sigma>' v = \<sigma> v"
  proof (cases "v \<in> set B")
    case True
    with assms(2) show ?thesis by blast
  next
    case False
    with v assms(3) have "v \<notin> set L" by blast
    with assms(1) show ?thesis unfolding agree_off_def by blast
  qed
qed

lemma length_operand:
  assumes "length input_ids = k * w" "j < k"
  shows "length (operand input_ids w j) = w"
proof -
  have "j * w + w \<le> k * w"
    using assms(2) by (metis Suc_leI mult_Suc mult_le_mono1 add.commute)
  then show ?thesis using assms(1) by (simp add: operand_def)
qed

lemma set_operand: "set (operand input_ids w j) \<subseteq> set input_ids"
  unfolding operand_def by (meson set_drop_subset set_take_subset subset_trans)

lemma modadd_lists:
  assumes k: "2 \<le> k" and len: "length input_ids = k * w" "length output_ids = w"
  shows "length (modadd_outputs_ids output_ids k) = k - 1"
    and "length (modadd_inputs_ids input_ids w k) = (k - 1) + 1"
    and "length (modadd_carries_ids output_ids k) = k - 1"
    and "length (modadd_intermediates_ids output_ids k) = k - 1"
    and "\<forall>i<k - 1. length (modadd_outputs_ids output_ids k ! i) = w"
    and "\<forall>j\<le>k - 1. modadd_inputs_ids input_ids w k ! j = operand input_ids w j"
    and "\<forall>j\<le>k - 1. length (modadd_inputs_ids input_ids w k ! j) = w"
    and "\<forall>i<k - 1. length (modadd_carries_ids output_ids k ! i) = w - 1"
    and "\<forall>i<k - 1. length (modadd_intermediates_ids output_ids k ! i) = w"
    and "modadd_outputs_ids output_ids k ! (k - 1 - 1) = output_ids"
proof -
  show "length (modadd_outputs_ids output_ids k) = k - 1"
    using k by (simp add: modadd_outputs_ids_def)
  show "length (modadd_inputs_ids input_ids w k) = (k - 1) + 1"
    using k by (simp add: modadd_inputs_ids_def)
  show "length (modadd_carries_ids output_ids k) = k - 1"
    by (simp add: modadd_carries_ids_def)
  show "length (modadd_intermediates_ids output_ids k) = k - 1"
    by (simp add: modadd_intermediates_ids_def)
  show "\<forall>i<k - 1. length (modadd_outputs_ids output_ids k ! i) = w"
  proof (intro allI impI)
    fix i assume i: "i < k - 1"
    show "length (modadd_outputs_ids output_ids k ! i) = w"
    proof (cases "i < k - 2")
      case True
      then show ?thesis using len by (simp add: modadd_outputs_ids_def nth_append)
    next
      case False
      with i have "i = k - 2" by simp
      then show ?thesis using len by (simp add: modadd_outputs_ids_def nth_append)
    qed
  qed
  show ops: "\<forall>j\<le>k - 1. modadd_inputs_ids input_ids w k ! j = operand input_ids w j"
    using k by (auto simp: modadd_inputs_ids_def operand_def)
  show "\<forall>j\<le>k - 1. length (modadd_inputs_ids input_ids w k ! j) = w"
  proof (intro allI impI)
    fix j assume j: "j \<le> k - 1"
    then have "j < k" using k by simp
    then show "length (modadd_inputs_ids input_ids w k ! j) = w"
      using ops j length_operand [OF len(1)] by simp
  qed
  show "\<forall>i<k - 1. length (modadd_carries_ids output_ids k ! i) = w - 1"
    using len by (simp add: modadd_carries_ids_def)
  show "\<forall>i<k - 1. length (modadd_intermediates_ids output_ids k ! i) = w"
    using len by (simp add: modadd_intermediates_ids_def)
  have "k - 1 - 1 = k - 2" by simp
  then show "modadd_outputs_ids output_ids k ! (k - 1 - 1) = output_ids"
    by (simp only: modadd_outputs_ids_def) (simp add: nth_append)
qed

lemma modadd_sat_eq:
  assumes k: "2 \<le> k" and w: "2 \<le> w" and len: "length input_ids = k * w" "length output_ids = w"
  shows "MODADD_sat_constraints_ids input_ids w output_ids k =
           Inr (modadd_sat_aux output_ids k @ output_ids,
                concat (map (sat_stage (modadd_outputs_ids output_ids k) (modadd_inputs_ids input_ids w k)
                               (modadd_carries_ids output_ids k) (modadd_intermediates_ids output_ids k))
                            [0..<k - 1]))"
proof -
  note L = modadd_lists [OF k len]
  have pos: "0 < k - 1" using k by simp
  have seq: "sat_modadd_seq (modadd_outputs_ids output_ids k) (modadd_inputs_ids input_ids w k)
               (modadd_carries_ids output_ids k) (modadd_intermediates_ids output_ids k)
             = Inr (concat (map (sat_stage (modadd_outputs_ids output_ids k) (modadd_inputs_ids input_ids w k)
                               (modadd_carries_ids output_ids k) (modadd_intermediates_ids output_ids k))
                            [0..<k - 1]))"
    by (rule sat_modadd_seq_eq [OF L(1,2,3,4) pos w L(5,7,8,9)])
  have "modadd_outputs_ids output_ids k = butlast (modadd_outputs_ids output_ids k) @ [output_ids]"
    by (simp add: modadd_outputs_ids_def)
  then have "concat (modadd_outputs_ids output_ids k)
               = concat (butlast (modadd_outputs_ids output_ids k)) @ output_ids"
    by (metis append_Nil2 concat.simps(1) concat.simps(2) concat_append)
  then show ?thesis
    unfolding MODADD_sat_constraints_ids_def Let_def seq ebind_Inr modadd_sat_aux_def by simp
qed

lemma modadd_sat_sound:
  assumes k: "2 \<le> k" and w: "2 \<le> w" and len: "length input_ids = k * w" "length output_ids = w"
    and sat: "cnf_true \<sigma> (concat (map (sat_stage (modadd_outputs_ids output_ids k) (modadd_inputs_ids input_ids w k)
                               (modadd_carries_ids output_ids k) (modadd_intermediates_ids output_ids k))
                            [0..<k - 1]))"
  shows "word_val \<sigma> output_ids = operands_sum \<sigma> input_ids w k mod 2 ^ w"
proof -
  let ?outs = "modadd_outputs_ids output_ids k" and ?ins = "modadd_inputs_ids input_ids w k"
  let ?cars = "modadd_carries_ids output_ids k" and ?ints = "modadd_intermediates_ids output_ids k"
  let ?n = "k - 1"
  note L = modadd_lists [OF k len]
  have left: "length (chain_left ?outs ?ins i) = w" if "i < ?n" for i
    using that L(5,7) by (cases i) (auto simp: chain_left_def)
  have stage: "map \<sigma> (?outs ! i) = sumbits (map \<sigma> (chain_left ?outs ?ins i)) (map \<sigma> (?ins ! (i + 1)))"
    if i: "i < ?n" for i
  proof -
    have l: "length (?outs ! i) = w" "length (?ins ! (i + 1)) = w" "length (?cars ! i) = w - 1"
      "length (?ints ! i) = w"
      using i L(5,7,8,9) by auto
    from sat i have "cnf_true \<sigma> (sat_stage ?outs ?ins ?cars ?ints i)"
      by (simp add: cnf_true_concat_map)
    then have "carry_chain \<sigma> (?outs ! i) (chain_left ?outs ?ins i) (?ins ! (i + 1)) (?cars ! i)"
      using sat_stage_sem(2) [OF l(1) left [OF i] l(2,3,4) w] by simp
    then show ?thesis
      using carry_chain_iff [OF l(1) left [OF i] l(2,3) w] by simp
  qed
  then have ch: "chain_outs sumbits \<sigma> ?outs ?ins"
    by (simp add: chain_outs_def L(1))
  have lt: "length ?outs < length ?ins" using L(1,2) by simp
  have n1: "?n - 1 < length ?outs" using L(1) k by simp
  have "map \<sigma> output_ids = chain_value sumbits (map (map \<sigma>) ?ins) (?n - 1)"
    using chain_sound [OF ch lt n1] L(10) by simp
  moreover have "\<forall>j \<le> (?n - 1) + 1. length (map (map \<sigma>) ?ins ! j) = w"
    using L(2,7) k by auto
  ultimately have A: "bl_val (map \<sigma> output_ids) = (\<Sum>j \<le> (?n - 1) + 1. bl_val (map (map \<sigma>) ?ins ! j)) mod 2 ^ w"
    using chain_value_sumbits [of "?n - 1" "map (map \<sigma>) ?ins" w] by simp
  have B: "(?n - 1) + 1 = ?n" using k by simp
  have C: "(\<Sum>j \<le> ?n. bl_val (map (map \<sigma>) ?ins ! j)) = (\<Sum>j \<le> ?n. word_val \<sigma> (operand input_ids w j))"
    using L(2,6) by (intro sum.cong) (auto simp: word_val_def)
  have D: "{..?n} = {..<k}" using k by auto
  have "word_val \<sigma> output_ids = (\<Sum>j \<le> ?n. word_val \<sigma> (operand input_ids w j)) mod 2 ^ w"
    using A unfolding B C by (simp only: word_val_def)
  then show ?thesis unfolding D operands_sum_def .
qed

lemma chain_value_operands:
  assumes k: "2 \<le> k" and len: "length input_ids = k * w"
  shows "length (chain_value sumbits (map (map \<sigma>) (modadd_inputs_ids input_ids w k)) (k - 2)) = w"
    and "bl_val (chain_value sumbits (map (map \<sigma>) (modadd_inputs_ids input_ids w k)) (k - 2))
           = operands_sum \<sigma> input_ids w k mod 2 ^ w"
proof -
  let ?ins = "modadd_inputs_ids input_ids w k"
  have li: "length ?ins = k" by (simp add: modadd_inputs_ids_def)
  have ops: "?ins ! j = operand input_ids w j" if "j < k" for j
    using that by (simp add: modadd_inputs_ids_def operand_def)
  have lw: "\<forall>j \<le> (k - 2) + 1. length (map (map \<sigma>) ?ins ! j) = w"
    using k li ops length_operand [OF len] by auto
  from chain_value_sumbits [OF lw]
  have A: "length (chain_value sumbits (map (map \<sigma>) ?ins) (k - 2)) = w"
    "bl_val (chain_value sumbits (map (map \<sigma>) ?ins) (k - 2))
       = (\<Sum>j \<le> (k - 2) + 1. bl_val (map (map \<sigma>) ?ins ! j)) mod 2 ^ w"
    by auto
  show "length (chain_value sumbits (map (map \<sigma>) ?ins) (k - 2)) = w" by fact
  have B: "{..(k - 2) + 1} = {..<k}" using k by auto
  have C: "(\<Sum>j<k. bl_val (map (map \<sigma>) ?ins ! j)) = (\<Sum>j<k. word_val \<sigma> (operand input_ids w j))"
    using li ops by (intro sum.cong) (auto simp: word_val_def)
  show "bl_val (chain_value sumbits (map (map \<sigma>) ?ins) (k - 2)) = operands_sum \<sigma> input_ids w k mod 2 ^ w"
    using A(2) unfolding B C operands_sum_def .
qed

lemma modadd_sat_complete:
  assumes k: "2 \<le> k" and w: "2 \<le> w" and len: "length input_ids = k * w" "length output_ids = w"
    and dist: "distinct (modadd_sat_aux output_ids k @ output_ids)"
    and disj: "set (modadd_sat_aux output_ids k @ output_ids) \<inter> set input_ids = {}"
    and target: "word_val \<sigma> output_ids = operands_sum \<sigma> input_ids w k mod 2 ^ w"
  shows "\<exists>\<sigma>'. agree_off (modadd_sat_aux output_ids k) \<sigma> \<sigma>'
           \<and> cnf_true \<sigma>' (concat (map (sat_stage (modadd_outputs_ids output_ids k)
                               (modadd_inputs_ids input_ids w k) (modadd_carries_ids output_ids k)
                               (modadd_intermediates_ids output_ids k)) [0..<k - 1]))"
proof -
  let ?outs = "modadd_outputs_ids output_ids k" and ?ins = "modadd_inputs_ids input_ids w k"
  let ?cars = "modadd_carries_ids output_ids k" and ?ints = "modadd_intermediates_ids output_ids k"
  let ?n = "k - 1"
  let ?auxs = "map (\<lambda>i. ?cars ! i @ ?ints ! i) [0..<?n]"
  let ?g = "\<lambda>a b. carries a b @ map2 (\<noteq>) a b"
  let ?vs = "map (map \<sigma>) ?ins"
  let ?L = "concat (map (\<lambda>i. ?auxs ! i @ ?outs ! i) [0..<?n])"
  note L = modadd_lists [OF k len]
  have vlen: "length (?vs ! j) = w" if "j \<le> ?n" for j
    using that L(2,7) by simp
  have cvl: "length (chain_value sumbits ?vs i) = w" if "i < ?n" for i
  proof -
    have "\<forall>j \<le> i + 1. length (?vs ! j) = w" using that vlen by simp
    from chain_value_sumbits [OF this] show ?thesis by simp
  qed
  have clv: "length (chain_left_value sumbits ?vs i) = w" if "i < ?n" for i
    using that cvl [of "i - 1"] vlen [of 0] by (cases i) (auto simp: chain_left_value_def)
  have lens1: "\<forall>i<?n. length (?outs ! i) = length (chain_value sumbits ?vs i)"
    using L(5) cvl by simp
  have lens2: "\<forall>i<?n. length (?auxs ! i) = length (?g (chain_left_value sumbits ?vs i) (?vs ! (i + 1)))"
  proof (intro allI impI)
    fix i assume i: "i < ?n"
    have "length (?auxs ! i) = (w - 1) + w" using i L(8,9) by simp
    moreover have "length (?g (chain_left_value sumbits ?vs i) (?vs ! (i + 1))) = (w - 1) + w"
      using clv [OF i] vlen [of "i + 1"] i by simp
    ultimately show "length (?auxs ! i) = length (?g (chain_left_value sumbits ?vs i) (?vs ! (i + 1)))"
      by simp
  qed
  have Leq: "map (\<lambda>i. ?auxs ! i @ ?outs ! i) [0..<?n] = map (\<lambda>i. (?cars ! i @ ?ints ! i) @ ?outs ! i) [0..<?n]"
    by (rule map_cong) auto
  have nth_all: "map ((!) ?cars) [0..<?n] = ?cars" "map ((!) ?ints) [0..<?n] = ?ints"
    "map ((!) ?outs) [0..<?n] = ?outs"
    using L(1,3,4) by (metis map_nth)+
  have co: "concat ?outs = concat (butlast ?outs) @ output_ids"
  proof -
    have "?outs = butlast ?outs @ [output_ids]" by (simp add: modadd_outputs_ids_def)
    then have "concat ?outs = concat (butlast ?outs @ [output_ids])" by simp
    then show ?thesis by simp
  qed
  have "mset ?L = mset (concat (map (\<lambda>i. ?cars ! i @ ?ints ! i) [0..<?n])) + mset (concat (map ((!) ?outs) [0..<?n]))"
    unfolding Leq by (rule mset_concat_interleave)
  also have "mset (concat (map (\<lambda>i. ?cars ! i @ ?ints ! i) [0..<?n]))
               = mset (concat (map ((!) ?cars) [0..<?n])) + mset (concat (map ((!) ?ints) [0..<?n]))"
    by (rule mset_concat_interleave)
  finally have msL: "mset ?L = mset (modadd_sat_aux output_ids k @ output_ids)"
    unfolding nth_all co modadd_sat_aux_def by simp
  have dL: "distinct ?L"
    using dist mset_eq_imp_distinct_iff [OF msL] by simp
  have sL: "set ?L = set (modadd_sat_aux output_ids k @ output_ids)"
    using msL by (rule mset_eq_setD)
  have "set (concat ?ins) \<subseteq> set input_ids"
    using set_operand [of input_ids w] by (auto simp: modadd_inputs_ids_def operand_def)
  with disj sL have dj: "set ?L \<inter> set (concat ?ins) = {}" by blast
  from chain_complete [OF L(1,2) refl lens1 lens2 dL dj]
  obtain \<sigma>' where ag: "agree_off ?L \<sigma> \<sigma>'"
    and co': "chain_outs sumbits \<sigma>' ?outs ?ins" and ca: "chain_auxs ?g \<sigma>' ?outs ?ins ?auxs"
    and cv: "\<forall>i<?n. map \<sigma>' (?outs ! i) = chain_value sumbits ?vs i"
    by blast
  have "map \<sigma>' output_ids = chain_value sumbits ?vs (k - 2)"
  proof -
    have "k - 1 - 1 = k - 2" "k - 2 < ?n" using k by auto
    with cv L(10) show ?thesis by metis
  qed
  moreover have "bl_val (map \<sigma> output_ids) = bl_val (chain_value sumbits ?vs (k - 2))"
    using target chain_value_operands(2) [OF k len(1), of \<sigma>] by (simp add: word_val_def)
  moreover have "length (map \<sigma> output_ids) = length (chain_value sumbits ?vs (k - 2))"
    using chain_value_operands(1) [OF k len(1), of \<sigma>] len(2) by simp
  ultimately have same: "map \<sigma>' output_ids = map \<sigma> output_ids"
    using bl_val_inj by metis
  then have "\<forall>v \<in> set output_ids. \<sigma>' v = \<sigma> v" by simp
  moreover have "set ?L \<subseteq> set (modadd_sat_aux output_ids k) \<union> set output_ids"
    using sL by simp
  ultimately have agree: "agree_off (modadd_sat_aux output_ids k) \<sigma> \<sigma>'"
    using ag agree_off_set by blast
  have left: "length (chain_left ?outs ?ins i) = w" if "i < ?n" for i
    using that L(5,7) by (cases i) (auto simp: chain_left_def)
  have stage: "cnf_true \<sigma>' (sat_stage ?outs ?ins ?cars ?ints i)" if i: "i < ?n" for i
  proof -
    let ?x = "chain_left ?outs ?ins i" and ?y = "?ins ! (i + 1)"
    have l: "length (?outs ! i) = w" "length ?y = w" "length (?cars ! i) = w - 1" "length (?ints ! i) = w"
      using i L(5,7,8,9) by auto
    have o: "map \<sigma>' (?outs ! i) = sumbits (map \<sigma>' ?x) (map \<sigma>' ?y)"
      using co' i L(1) by (simp add: chain_outs_def)
    have "map \<sigma>' (?auxs ! i) = ?g (map \<sigma>' ?x) (map \<sigma>' ?y)"
      using ca i L(1) by (simp add: chain_auxs_def)
    then have "map \<sigma>' (?cars ! i) @ map \<sigma>' (?ints ! i) = carries (map \<sigma>' ?x) (map \<sigma>' ?y) @ map2 (\<noteq>) (map \<sigma>' ?x) (map \<sigma>' ?y)"
      using i by simp
    moreover have "length (map \<sigma>' (?cars ! i)) = length (carries (map \<sigma>' ?x) (map \<sigma>' ?y))"
      using l left [OF i] by simp
    ultimately have c: "map \<sigma>' (?cars ! i) = carries (map \<sigma>' ?x) (map \<sigma>' ?y)"
      and m: "map \<sigma>' (?ints ! i) = map2 (\<noteq>) (map \<sigma>' ?x) (map \<sigma>' ?y)"
      by simp_all
    have cc: "carry_chain \<sigma>' (?outs ! i) ?x ?y (?cars ! i)"
      using carry_chain_iff [OF l(1) left [OF i] l(2,3) w] c o by simp
    have "\<sigma>' (?ints ! i ! j) = (\<sigma>' (?x ! j) \<noteq> \<sigma>' (?y ! j))" if "j < w" for j
    proof -
      have "map \<sigma>' (?ints ! i) ! j = map2 (\<noteq>) (map \<sigma>' ?x) (map \<sigma>' ?y) ! j"
        using m by simp
      then show ?thesis using that l left [OF i] by simp
    qed
    then have ix: "intermediate_xors \<sigma>' (?ints ! i) ?x ?y"
      unfolding intermediate_xors_index using left [OF i] by simp
    show ?thesis
      using sat_stage_sem(2) [OF l(1) left [OF i] l(2,3,4) w] cc ix by simp
  qed
  then have "cnf_true \<sigma>' (concat (map (sat_stage ?outs ?ins ?cars ?ints) [0..<?n]))"
    by (simp add: cnf_true_concat_map)
  with agree show ?thesis by blast
qed

section \<open>The polynomials of one addition\<close>

lemma common_zero_append [simp]: "common_zero \<sigma> (a @ b) = (common_zero \<sigma> a \<and> common_zero \<sigma> b)"
  by (simp add: common_zero_def)

lemma common_zero_concat_map: "common_zero \<sigma> (concat (map f zs)) = (\<forall>z \<in> set zs. common_zero \<sigma> (f z))"
  by (induction zs) (auto simp: common_zero_def)

lemma common_zero_Nil [simp]: "common_zero \<sigma> []"
  by (simp add: common_zero_def)

lemma common_zero_Cons [simp]: "common_zero \<sigma> (p # ps) = (\<not> poly_eval \<sigma> p \<and> common_zero \<sigma> ps)"
  by (simp add: common_zero_def)

lemma poly_carry_sem:
  "(\<not> poly_eval \<sigma> (PAdd (PVar c) (maj (PVar x) (PVar y) (PVar p)))) = (\<sigma> c = maj3 (\<sigma> x) (\<sigma> y) (\<sigma> p))"
  by (auto simp: maj_def maj3_def)

lemma poly_sum_sem:
  "(\<not> poly_eval \<sigma> (PAdd (PAdd (PAdd (PVar x) (PVar y)) (PVar z)) (PVar c))) = (\<sigma> z = xor3 (\<sigma> x) (\<sigma> y) (\<sigma> c))"
  by (auto simp: xor3_def)

lemma modadd_stage_polynomials_eq:
  assumes len: "length X = w" "length Y = w" "length Z = w" "length C = w" "1 \<le> w"
  shows "modadd_stage_polynomials (map PVar X) (map PVar Y) (map PVar Z) (map PVar C) w
           = Inr (alg_stage_polys X Y Z C w)"
proof -
  have ne: "map PVar C \<noteq> []" "map PVar X \<noteq> []" "map PVar Y \<noteq> []" "map PVar Z \<noteq> []"
    using len by auto
  have g0: "py_get (map PVar C) 0 = Inr (PVar (C ! 0))" "py_get (map PVar X) 0 = Inr (PVar (X ! 0))"
    "py_get (map PVar Y) 0 = Inr (PVar (Y ! 0))" "py_get (map PVar Z) 0 = Inr (PVar (Z ! 0))"
    using len by (auto simp: py_get_def)
  have rest: "emap (\<lambda>i. ebind (py_get (map PVar C) (int i)) (\<lambda>ci.
                       ebind (py_get (map PVar X) (int i - 1)) (\<lambda>xp. ebind (py_get (map PVar Y) (int i - 1)) (\<lambda>yp.
                       ebind (py_get (map PVar C) (int i - 1)) (\<lambda>cp.
                       ebind (py_get (map PVar X) (int i)) (\<lambda>xi. ebind (py_get (map PVar Y) (int i)) (\<lambda>yi.
                       ebind (py_get (map PVar Z) (int i)) (\<lambda>zi.
                         Inr [PAdd ci (maj xp yp cp), PAdd (PAdd (PAdd xi yi) zi) ci]))))))))
                 [1..<w]
              = Inr (map (\<lambda>i. [PAdd (PVar (C ! i)) (maj (PVar (X ! (i - 1))) (PVar (Y ! (i - 1))) (PVar (C ! (i - 1)))),
                         PAdd (PAdd (PAdd (PVar (X ! i)) (PVar (Y ! i))) (PVar (Z ! i))) (PVar (C ! i))])
                   [1..<w])"
  proof (rule emap_Inr)
    fix i assume "i \<in> set [1..<w]"
    then have i: "0 < i" "i < w" by auto
    have "py_get (map PVar C) (int i) = Inr (PVar (C ! i))" "py_get (map PVar X) (int i) = Inr (PVar (X ! i))"
      "py_get (map PVar Y) (int i) = Inr (PVar (Y ! i))" "py_get (map PVar Z) (int i) = Inr (PVar (Z ! i))"
      "py_get (map PVar C) (int i - 1) = Inr (PVar (C ! (i - 1)))"
      "py_get (map PVar X) (int i - 1) = Inr (PVar (X ! (i - 1)))"
      "py_get (map PVar Y) (int i - 1) = Inr (PVar (Y ! (i - 1)))"
      using i len by (simp_all add: py_get_in_range py_get_pred)
    then show "ebind (py_get (map PVar C) (int i)) (\<lambda>ci.
                       ebind (py_get (map PVar X) (int i - 1)) (\<lambda>xp. ebind (py_get (map PVar Y) (int i - 1)) (\<lambda>yp.
                       ebind (py_get (map PVar C) (int i - 1)) (\<lambda>cp.
                       ebind (py_get (map PVar X) (int i)) (\<lambda>xi. ebind (py_get (map PVar Y) (int i)) (\<lambda>yi.
                       ebind (py_get (map PVar Z) (int i)) (\<lambda>zi.
                         Inr [PAdd ci (maj xp yp cp), PAdd (PAdd (PAdd xi yi) zi) ci])))))))
             = Inr [PAdd (PVar (C ! i)) (maj (PVar (X ! (i - 1))) (PVar (Y ! (i - 1))) (PVar (C ! (i - 1)))),
                         PAdd (PAdd (PAdd (PVar (X ! i)) (PVar (Y ! i))) (PVar (Z ! i))) (PVar (C ! i))]"
      by simp
  qed
  show ?thesis
    unfolding modadd_stage_polynomials_def g0 ebind_Inr rest alg_stage_polys_def by simp
qed

lemma alg_stage_sem:
  assumes "length Z = w"
  shows "common_zero \<sigma> (alg_stage_polys X Y Z C w) = lsb_chain \<sigma> Z X Y C"
proof -
  have p0: "common_zero \<sigma> [PAdd (PVar c) PZero, PAdd (PAdd (PAdd (PVar x) (PVar y)) (PVar z)) (PVar c)]
              = (\<not> \<sigma> c \<and> \<sigma> z = xor3 (\<sigma> x) (\<sigma> y) (\<sigma> c))" for c x y z
    by (auto simp: xor3_def)
  have p1: "common_zero \<sigma> [PAdd (PVar c) (maj (PVar xp) (PVar yp) (PVar cp)),
                           PAdd (PAdd (PAdd (PVar x) (PVar y)) (PVar z)) (PVar c)]
              = (\<sigma> c = maj3 (\<sigma> xp) (\<sigma> yp) (\<sigma> cp) \<and> \<sigma> z = xor3 (\<sigma> x) (\<sigma> y) (\<sigma> c))" for c x y z xp yp cp
    by (auto simp: xor3_def maj_def maj3_def)
  have "common_zero \<sigma> (alg_stage_polys X Y Z C w) \<longleftrightarrow>
          (\<not> \<sigma> (C ! 0) \<and> \<sigma> (Z ! 0) = xor3 (\<sigma> (X ! 0)) (\<sigma> (Y ! 0)) (\<sigma> (C ! 0))
           \<and> (\<forall>i \<in> set [1..<w].
                 \<sigma> (C ! i) = maj3 (\<sigma> (X ! (i - 1))) (\<sigma> (Y ! (i - 1))) (\<sigma> (C ! (i - 1)))
                 \<and> \<sigma> (Z ! i) = xor3 (\<sigma> (X ! i)) (\<sigma> (Y ! i)) (\<sigma> (C ! i))))"
    unfolding alg_stage_polys_def common_zero_append common_zero_concat_map p0 p1
    by (simp only: conj_assoc)
  also have "(\<forall>i \<in> set [1..<w].
                 \<sigma> (C ! i) = maj3 (\<sigma> (X ! (i - 1))) (\<sigma> (Y ! (i - 1))) (\<sigma> (C ! (i - 1)))
                 \<and> \<sigma> (Z ! i) = xor3 (\<sigma> (X ! i)) (\<sigma> (Y ! i)) (\<sigma> (C ! i)))
        \<longleftrightarrow> (\<forall>i. 0 < i \<and> i < length Z \<longrightarrow>
                 \<sigma> (C ! i) = maj3 (\<sigma> (X ! (i - 1))) (\<sigma> (Y ! (i - 1))) (\<sigma> (C ! (i - 1)))
                 \<and> \<sigma> (Z ! i) = xor3 (\<sigma> (X ! i)) (\<sigma> (Y ! i)) (\<sigma> (C ! i)))"
    unfolding assms
  proof (intro iffI allI impI ballI)
    fix i
    assume h: "\<forall>i \<in> set [1..<w].
                 \<sigma> (C ! i) = maj3 (\<sigma> (X ! (i - 1))) (\<sigma> (Y ! (i - 1))) (\<sigma> (C ! (i - 1)))
                 \<and> \<sigma> (Z ! i) = xor3 (\<sigma> (X ! i)) (\<sigma> (Y ! i)) (\<sigma> (C ! i))"
      and i: "0 < i \<and> i < w"
    from i have "i \<in> set [1..<w]" by simp
    with h show "\<sigma> (C ! i) = maj3 (\<sigma> (X ! (i - 1))) (\<sigma> (Y ! (i - 1))) (\<sigma> (C ! (i - 1)))
                 \<and> \<sigma> (Z ! i) = xor3 (\<sigma> (X ! i)) (\<sigma> (Y ! i)) (\<sigma> (C ! i))"
      by blast
  next
    fix i
    assume h: "\<forall>i. 0 < i \<and> i < w \<longrightarrow>
                 \<sigma> (C ! i) = maj3 (\<sigma> (X ! (i - 1))) (\<sigma> (Y ! (i - 1))) (\<sigma> (C ! (i - 1)))
                 \<and> \<sigma> (Z ! i) = xor3 (\<sigma> (X ! i)) (\<sigma> (Y ! i)) (\<sigma> (C ! i))"
      and i: "i \<in> set [1..<w]"
    from i have "0 < i \<and> i < w" by simp
    with h show "\<sigma> (C ! i) = maj3 (\<sigma> (X ! (i - 1))) (\<sigma> (Y ! (i - 1))) (\<sigma> (C ! (i - 1)))
                 \<and> \<sigma> (Z ! i) = xor3 (\<sigma> (X ! i)) (\<sigma> (Y ! i)) (\<sigma> (C ! i))"
      by blast
  qed
  finally show ?thesis unfolding lsb_chain_def .
qed

section \<open>The adder, least significant bit first\<close>

lemma length_lsb [simp]:
  "length (carries_lsb A B) = length A"
  "length A = length B \<Longrightarrow> length (sumbits_lsb A B) = length A"
  by (simp_all add: carries_lsb_def sumbits_lsb_def)

lemma carries_lsb_nth:
  "i < length A \<Longrightarrow> carries_lsb A B ! i = cout (rev (take i A)) (rev (take i B))"
  unfolding carries_lsb_def by (simp del: upt_Suc)

lemma cout_take_Suc:
  assumes "i < length A" "i < length B"
  shows "cout (rev (take (Suc i) A)) (rev (take (Suc i) B))
           = maj3 (A ! i) (B ! i) (cout (rev (take i A)) (rev (take i B)))"
  using assms by (simp add: take_Suc_conv_app_nth)

lemma sumbits_lsb_nth:
  assumes "length A = length B" "i < length A"
  shows "sumbits_lsb A B ! i = xor3 (A ! i) (B ! i) (cout (rev (take i A)) (rev (take i B)))"
proof -
  let ?w = "length A"
  have j: "?w - Suc i < ?w" using assms by simp
  have r: "rev A ! (?w - Suc i) = A ! i" "rev B ! (?w - Suc i) = B ! i"
    using assms by (simp_all add: rev_nth)
  have s: "Suc (?w - Suc i) = ?w - i" using assms by simp
  have d: "drop (?w - i) (rev A) = rev (take i A)" "drop (?w - i) (rev B) = rev (take i B)"
    using assms by (simp_all add: drop_rev)
  have "sumbits_lsb A B ! i = sumbits (rev A) (rev B) ! (?w - Suc i)"
    using assms by (simp add: sumbits_lsb_def rev_nth)
  also have "\<dots> = xor3 (rev A ! (?w - Suc i)) (rev B ! (?w - Suc i))
                        (cout (drop (Suc (?w - Suc i)) (rev A)) (drop (Suc (?w - Suc i)) (rev B)))"
    using assms j by (intro sumbits_nth) auto
  finally show ?thesis unfolding r s d .
qed

lemma lsb_bl_iff:
  assumes len: "length A = w" "length B = w" "length Z = w" "length C = w" "1 \<le> w"
  shows "(\<not> C ! 0 \<and> Z ! 0 = xor3 (A ! 0) (B ! 0) (C ! 0)
          \<and> (\<forall>i. 0 < i \<and> i < w \<longrightarrow> C ! i = maj3 (A ! (i - 1)) (B ! (i - 1)) (C ! (i - 1))
                                    \<and> Z ! i = xor3 (A ! i) (B ! i) (C ! i)))
         \<longleftrightarrow> C = carries_lsb A B \<and> Z = sumbits_lsb A B"
    (is "?L \<longleftrightarrow> ?R")
proof
  assume L: ?L
  have cs: "i < w \<Longrightarrow> C ! i = cout (rev (take i A)) (rev (take i B))" for i
  proof (induction i)
    case 0
    with L show ?case by simp
  next
    case (Suc i)
    from L Suc.prems have "C ! Suc i = maj3 (A ! i) (B ! i) (C ! i)" by auto
    then show ?case using Suc len by (simp add: cout_take_Suc)
  qed
  have zs: "Z ! i = xor3 (A ! i) (B ! i) (C ! i)" if "i < w" for i
    using L that by (cases i) auto
  have "C = carries_lsb A B"
    by (rule nth_equalityI) (use len cs in \<open>auto simp: carries_lsb_nth\<close>)
  moreover have "Z = sumbits_lsb A B"
    by (rule nth_equalityI) (use len cs zs in \<open>auto simp: sumbits_lsb_nth\<close>)
  ultimately show ?R ..
next
  assume R: ?R
  have cs: "C ! i = cout (rev (take i A)) (rev (take i B))" if "i < w" for i
    using R that len by (simp add: carries_lsb_nth)
  have zs: "Z ! i = xor3 (A ! i) (B ! i) (C ! i)" if "i < w" for i
    using R that len cs [OF that] by (simp add: sumbits_lsb_nth)
  have st: "C ! i = maj3 (A ! (i - 1)) (B ! (i - 1)) (C ! (i - 1))" if "0 < i" "i < w" for i
  proof -
    from that obtain j where j: "i = Suc j" by (cases i) auto
    then show ?thesis using that cs [of i] cs [of j] len by (simp add: cout_take_Suc)
  qed
  have c0: "\<not> C ! 0" using cs [of 0] len by simp
  have z0: "Z ! 0 = xor3 (A ! 0) (B ! 0) (C ! 0)" using zs [of 0] len by simp
  show ?L using c0 z0 zs st by blast
qed

lemma lsb_chain_iff:
  assumes len: "length x = w" "length y = w" "length z = w" "length c = w" "1 \<le> w"
  shows "lsb_chain \<sigma> z x y c \<longleftrightarrow>
           map \<sigma> c = carries_lsb (map \<sigma> x) (map \<sigma> y) \<and> map \<sigma> z = sumbits_lsb (map \<sigma> x) (map \<sigma> y)"
proof -
  have a: "map \<sigma> c ! 0 = \<sigma> (c ! 0)" "map \<sigma> z ! 0 = \<sigma> (z ! 0)" "map \<sigma> x ! 0 = \<sigma> (x ! 0)"
    "map \<sigma> y ! 0 = \<sigma> (y ! 0)"
    using len by simp_all
  have b: "(0 < i \<and> i < w \<longrightarrow> map \<sigma> c ! i = maj3 (map \<sigma> x ! (i - 1)) (map \<sigma> y ! (i - 1)) (map \<sigma> c ! (i - 1))
                                    \<and> map \<sigma> z ! i = xor3 (map \<sigma> x ! i) (map \<sigma> y ! i) (map \<sigma> c ! i))
           = (0 < i \<and> i < w \<longrightarrow> \<sigma> (c ! i) = maj3 (\<sigma> (x ! (i - 1))) (\<sigma> (y ! (i - 1))) (\<sigma> (c ! (i - 1)))
                                    \<and> \<sigma> (z ! i) = xor3 (\<sigma> (x ! i)) (\<sigma> (y ! i)) (\<sigma> (c ! i)))" for i
    using len by auto
  have "lsb_chain \<sigma> z x y c \<longleftrightarrow>
          (\<not> map \<sigma> c ! 0 \<and> map \<sigma> z ! 0 = xor3 (map \<sigma> x ! 0) (map \<sigma> y ! 0) (map \<sigma> c ! 0)
          \<and> (\<forall>i. 0 < i \<and> i < w \<longrightarrow> map \<sigma> c ! i = maj3 (map \<sigma> x ! (i - 1)) (map \<sigma> y ! (i - 1)) (map \<sigma> c ! (i - 1))
                                    \<and> map \<sigma> z ! i = xor3 (map \<sigma> x ! i) (map \<sigma> y ! i) (map \<sigma> c ! i)))"
    unfolding lsb_chain_def len a b ..
  also have "\<dots> \<longleftrightarrow> map \<sigma> c = carries_lsb (map \<sigma> x) (map \<sigma> y) \<and> map \<sigma> z = sumbits_lsb (map \<sigma> x) (map \<sigma> y)"
    by (rule lsb_bl_iff [of _ w]) (use len in simp_all)
  finally show ?thesis .
qed

lemma sumbits_lsb_mod:
  assumes "length A = length B"
  shows "lsb_val (sumbits_lsb A B) = (lsb_val A + lsb_val B) mod 2 ^ length A"
  using sumbits_mod [of "rev A" "rev B"] assms by (simp add: lsb_val_def sumbits_lsb_def)

lemma chain_value_sumbits_lsb:
  assumes "\<forall>j \<le> i + 1. length (vs ! j) = w"
  shows "length (chain_value sumbits_lsb vs i) = w
         \<and> lsb_val (chain_value sumbits_lsb vs i) = (\<Sum>j \<le> i + 1. lsb_val (vs ! j)) mod 2 ^ w"
  using assms
proof (induction i)
  case 0
  then have l: "length (vs ! 0) = w" "length (vs ! 1) = w" by auto
  have "{..Suc 0} = {0, Suc 0}" by auto
  then show ?case using l by (simp add: sumbits_lsb_mod)
next
  case (Suc i)
  then have ih: "length (chain_value sumbits_lsb vs i) = w"
    "lsb_val (chain_value sumbits_lsb vs i) = (\<Sum>j \<le> i + 1. lsb_val (vs ! j)) mod 2 ^ w"
    by auto
  have l: "length (vs ! (i + 2)) = w" using Suc.prems by auto
  have "lsb_val (chain_value sumbits_lsb vs (Suc i))
          = (lsb_val (chain_value sumbits_lsb vs i) + lsb_val (vs ! (i + 2))) mod 2 ^ w"
    using ih(1) l by (simp add: sumbits_lsb_mod)
  also have "\<dots> = ((\<Sum>j \<le> i + 1. lsb_val (vs ! j)) + lsb_val (vs ! (i + 2))) mod 2 ^ w"
    unfolding ih(2) by (simp add: mod_add_left_eq)
  also have "\<dots> = (\<Sum>j \<le> Suc i + 1. lsb_val (vs ! j)) mod 2 ^ w"
    by (simp add: add.commute)
  finally show ?case using ih(1) l by simp
qed

lemma lsb_val_inj: "length as = length bs \<Longrightarrow> lsb_val as = lsb_val bs \<Longrightarrow> as = bs"
  using bl_val_inj [of "rev as" "rev bs"] by (simp add: lsb_val_def)

section \<open>The polynomials of a sum of several operands\<close>

lemma alg_lists:
  assumes k: "description_1 self = k" "2 \<le> k" and w: "output_bit_size self = w"
    and len: "input_bit_size self = k * w"
  shows "length (alg_stage_outs self op) = k - 1"
    and "length (alg_stage_ins self ip) = (k - 1) + 1"
    and "length (alg_carries self) = k - 1"
    and "\<forall>i<k - 1. length (alg_stage_outs self op ! i) = w"
    and "\<forall>j\<le>k - 1. alg_stage_ins self ip ! j = operand (alg_inputs self ip) w j"
    and "\<forall>j\<le>k - 1. length (alg_stage_ins self ip ! j) = w"
    and "\<forall>i<k - 1. length (alg_carries self ! i) = w"
    and "alg_stage_outs self op ! (k - 2) = alg_outputs self op"
    and "\<forall>i<k - 2. alg_stage_outs self op ! i = alg_aux_outputs self ! i"
    and "length (alg_aux_outputs self) = k - 2"
    and "length (alg_inputs self ip) = k * w"
proof -
  have k2: "k - 1 - 1 = k - 2" by simp
  show la: "length (alg_aux_outputs self) = k - 2"
    by (simp add: alg_aux_outputs_def k k2)
  show "length (alg_stage_outs self op) = k - 1"
    using k by (simp add: alg_stage_outs_def la)
  show "length (alg_stage_ins self ip) = (k - 1) + 1"
    using k by (simp add: alg_stage_ins_def)
  show "length (alg_carries self) = k - 1"
    by (simp add: alg_carries_def k)
  show li: "length (alg_inputs self ip) = k * w"
    by (simp add: alg_inputs_def len)
  show last: "alg_stage_outs self op ! (k - 2) = alg_outputs self op"
    by (simp add: alg_stage_outs_def nth_append la)
  show pre: "\<forall>i<k - 2. alg_stage_outs self op ! i = alg_aux_outputs self ! i"
    by (simp add: alg_stage_outs_def nth_append la)
  have lo: "length (alg_outputs self op) = w" by (simp add: alg_outputs_def w)
  have lx: "length (alg_aux_outputs self ! i) = w" if "i < k - 2" for i
    using that by (simp add: alg_aux_outputs_def k k2 w)
  show "\<forall>i<k - 1. length (alg_stage_outs self op ! i) = w"
  proof (intro allI impI)
    fix i assume i: "i < k - 1"
    show "length (alg_stage_outs self op ! i) = w"
    proof (cases "i < k - 2")
      case True
      then show ?thesis using pre lx by simp
    next
      case False
      with i have "i = k - 2" by simp
      then show ?thesis using last lo by simp
    qed
  qed
  show ops: "\<forall>j\<le>k - 1. alg_stage_ins self ip ! j = operand (alg_inputs self ip) w j"
    using k by (auto simp: alg_stage_ins_def w)
  show "\<forall>j\<le>k - 1. length (alg_stage_ins self ip ! j) = w"
  proof (intro allI impI)
    fix j assume j: "j \<le> k - 1"
    then have "j < k" using k by simp
    then show "length (alg_stage_ins self ip ! j) = w"
      using ops j length_operand [OF li] by simp
  qed
  show "\<forall>i<k - 1. length (alg_carries self ! i) = w"
    by (simp add: alg_carries_def k w)
qed

lemma alg_eq:
  assumes k: "description_1 self = k" "2 \<le> k" and w: "output_bit_size self = w" "1 \<le> w"
    and len: "input_bit_size self = k * w"
  shows "MODADD_algebraic_polynomials self ip op = Inr (alg_polys self ip op)"
proof -
  note L = alg_lists [OF k w(1) len]
  let ?outs = "alg_stage_outs self op" and ?ins = "alg_stage_ins self ip"
  let ?input_vars = "map (\<lambda>i. PVar (comp_id self @ ''_'' @ ip @ str_nat i)) [0..<k * w]"
  let ?output_vars = "map (\<lambda>i. PVar (comp_id self @ ''_'' @ op @ str_nat i)) [0..<w]"
  let ?carries_vars = "map (\<lambda>n. map (\<lambda>i. PVar (comp_id self @ ''_c'' @ str_nat n @ ''_'' @ str_nat i))
                                       [0..<w]) [0..<k - 1]"
  let ?aux_vars = "map (\<lambda>n. map (\<lambda>i. PVar (comp_id self @ ''_o'' @ str_nat n @ ''_'' @ str_nat i))
                                           [0..<w]) [0..<k - 1 - 1]"
  have iv: "?input_vars = map PVar (alg_inputs self ip)"
    by (simp add: alg_inputs_def len)
  have ov: "?output_vars = map PVar (alg_outputs self op)"
    by (simp add: alg_outputs_def w)
  have cv: "?carries_vars = map (map PVar) (alg_carries self)"
    by (simp add: alg_carries_def k w)
  have av: "?aux_vars = map (map PVar) (alg_aux_outputs self)"
    by (simp add: alg_aux_outputs_def k w)
  have k2: "k - 1 - 1 = k - 2" by simp
  have stage: "ebind (if n = 0 then Inr (take w ?input_vars) else py_get ?aux_vars (int n - 1)) (\<lambda>x.
                  ebind (if n = k - 1 - 1 then Inr ?output_vars else py_get ?aux_vars (int n)) (\<lambda>z.
                  let y = take w (drop ((n + 1) * w) ?input_vars)
                  in ebind (py_get ?carries_vars (int n)) (\<lambda>c.
                       modadd_stage_polynomials x y z c w)))
               = Inr (alg_stage_polys (chain_left ?outs ?ins n) (?ins ! (n + 1)) (?outs ! n)
                         (alg_carries self ! n) w)" if n: "n < k - 1" for n
  proof -
    have x: "(if n = 0 then Inr (take w ?input_vars) else py_get ?aux_vars (int n - 1))
               = Inr (map PVar (chain_left ?outs ?ins n))"
    proof (cases "n = 0")
      case True
      have e: "?ins ! 0 = operand (alg_inputs self ip) w 0" using L(5) by simp
      show ?thesis unfolding iv using True e by (simp add: chain_left_def operand_def take_map)
    next
      case False
      then have n1: "0 < n" "n \<le> length ?aux_vars" "n - 1 < k - 2" using n by (auto simp: k2)
      have "py_get ?aux_vars (int n - 1) = Inr (?aux_vars ! (n - 1))"
        using n1(1,2) by (rule py_get_pred)
      moreover have "?aux_vars ! (n - 1) = map PVar (alg_aux_outputs self ! (n - 1))"
        unfolding av using n1(3) L(10) by simp
      moreover have "chain_left ?outs ?ins n = alg_aux_outputs self ! (n - 1)"
        using False n1(3) L(9) by (simp add: chain_left_def)
      ultimately show ?thesis using False by simp
    qed
    have z: "(if n = k - 1 - 1 then Inr ?output_vars else py_get ?aux_vars (int n)) = Inr (map PVar (?outs ! n))"
    proof (cases "n = k - 2")
      case True
      then have t: "(n = k - 1 - 1) = True" by (simp add: k2)
      have a: "(if n = k - 1 - 1 then Inr ?output_vars else py_get ?aux_vars (int n)) = Inr ?output_vars"
        unfolding t by (rule if_True)
      have b: "?output_vars = map PVar (?outs ! n)"
        unfolding ov using L(8) True by simp
      show ?thesis by (rule trans [OF a]) (simp only: b)
    next
      case False
      then have n2: "n < k - 2" using n by simp
      from False have f: "(n = k - 1 - 1) = False" by (simp add: k2)
      have a: "(if n = k - 1 - 1 then Inr ?output_vars else py_get ?aux_vars (int n)) = py_get ?aux_vars (int n)"
        unfolding f by (rule if_False)
      have b: "py_get ?aux_vars (int n) = Inr (?aux_vars ! n)"
        using n2 by (intro py_get_in_range) (simp add: k2)
      have c: "?aux_vars ! n = map PVar (alg_aux_outputs self ! n)"
        unfolding av using n2 L(10) by simp
      have d: "alg_aux_outputs self ! n = ?outs ! n"
        using n2 L(9) by simp
      show ?thesis by (rule trans [OF a]) (simp only: b c d)
    qed
    have y: "take w (drop ((n + 1) * w) ?input_vars) = map PVar (?ins ! (n + 1))"
    proof -
      have e: "?ins ! (n + 1) = operand (alg_inputs self ip) w (n + 1)" using L(5) n by simp
      show ?thesis unfolding iv using e by (simp add: operand_def take_map drop_map)
    qed
    have c: "py_get ?carries_vars (int n) = Inr (map PVar (alg_carries self ! n))"
    proof -
      have "py_get ?carries_vars (int n) = Inr (?carries_vars ! n)"
        using n by (intro py_get_in_range) simp
      moreover have "?carries_vars ! n = map PVar (alg_carries self ! n)"
        unfolding cv using n L(3) by simp
      ultimately show ?thesis by simp
    qed
    have l: "length (chain_left ?outs ?ins n) = w" "length (?ins ! (n + 1)) = w" "length (?outs ! n) = w"
      "length (alg_carries self ! n) = w"
    proof -
      show "length (chain_left ?outs ?ins n) = w"
        using n L(4,6) by (cases n) (auto simp: chain_left_def)
      show "length (?ins ! (n + 1)) = w" using n L(6) by simp
      show "length (?outs ! n) = w" using n L(4) by simp
      show "length (alg_carries self ! n) = w" using n L(7) by simp
    qed
    show ?thesis
      unfolding x z y c Let_def ebind_Inr
      by (rule modadd_stage_polynomials_eq [OF l w(2)])
  qed
  have "emap (\<lambda>n.
                  ebind (if n = 0 then Inr (take w ?input_vars) else py_get ?aux_vars (int n - 1)) (\<lambda>x.
                  ebind (if n = k - 1 - 1 then Inr ?output_vars else py_get ?aux_vars (int n)) (\<lambda>z.
                  let y = take w (drop ((n + 1) * w) ?input_vars)
                  in ebind (py_get ?carries_vars (int n)) (\<lambda>c.
                       modadd_stage_polynomials x y z c w))))
                [0..<k - 1]
        = Inr (map (\<lambda>n. alg_stage_polys (chain_left ?outs ?ins n) (?ins ! (n + 1)) (?outs ! n)
                         (alg_carries self ! n) w) [0..<k - 1])"
    by (rule emap_Inr) (use stage in simp)
  then show ?thesis
    unfolding MODADD_algebraic_polynomials_def Let_def k(1) w(1) len alg_polys_def by simp
qed

lemma alg_chain_value:
  assumes k: "description_1 self = k" "2 \<le> k" and w: "output_bit_size self = w"
    and len: "input_bit_size self = k * w"
  shows "length (chain_value sumbits_lsb (map (map \<sigma>) (alg_stage_ins self ip)) (k - 2)) = w"
    and "lsb_val (chain_value sumbits_lsb (map (map \<sigma>) (alg_stage_ins self ip)) (k - 2))
           = operands_sum_lsb \<sigma> (alg_inputs self ip) w k mod 2 ^ w"
proof -
  let ?ins = "alg_stage_ins self ip"
  note L = alg_lists [OF k w len]
  have li: "length ?ins = k" using L(2) k by simp
  have ops: "?ins ! j = operand (alg_inputs self ip) w j" if "j < k" for j
    using that L(5) by simp
  have lw: "\<forall>j \<le> (k - 2) + 1. length (map (map \<sigma>) ?ins ! j) = w"
    using k li L(6) by auto
  from chain_value_sumbits_lsb [OF lw]
  have A: "length (chain_value sumbits_lsb (map (map \<sigma>) ?ins) (k - 2)) = w"
    "lsb_val (chain_value sumbits_lsb (map (map \<sigma>) ?ins) (k - 2))
       = (\<Sum>j \<le> (k - 2) + 1. lsb_val (map (map \<sigma>) ?ins ! j)) mod 2 ^ w"
    by auto
  show "length (chain_value sumbits_lsb (map (map \<sigma>) ?ins) (k - 2)) = w" by fact
  have B: "{..(k - 2) + 1} = {..<k}" using k by auto
  have C: "(\<Sum>j<k. lsb_val (map (map \<sigma>) ?ins ! j)) = (\<Sum>j<k. word_val_lsb \<sigma> (operand (alg_inputs self ip) w j))"
    using li ops by (intro sum.cong) (auto simp: word_val_lsb_def)
  show "lsb_val (chain_value sumbits_lsb (map (map \<sigma>) ?ins) (k - 2))
          = operands_sum_lsb \<sigma> (alg_inputs self ip) w k mod 2 ^ w"
    using A(2) unfolding B C operands_sum_lsb_def .
qed

lemma alg_sound:
  assumes k: "description_1 self = k" "2 \<le> k" and w: "output_bit_size self = w" "1 \<le> w"
    and len: "input_bit_size self = k * w"
    and zero: "common_zero \<sigma> (alg_polys self ip op)"
  shows "word_val_lsb \<sigma> (alg_outputs self op) = operands_sum_lsb \<sigma> (alg_inputs self ip) w k mod 2 ^ w"
proof -
  let ?outs = "alg_stage_outs self op" and ?ins = "alg_stage_ins self ip"
  let ?cars = "alg_carries self"
  let ?n = "k - 1"
  note L = alg_lists [OF k w(1) len]
  have left: "length (chain_left ?outs ?ins i) = w" if "i < ?n" for i
    using that L(4,6) by (cases i) (auto simp: chain_left_def)
  have stage: "map \<sigma> (?outs ! i) = sumbits_lsb (map \<sigma> (chain_left ?outs ?ins i)) (map \<sigma> (?ins ! (i + 1)))"
    if i: "i < ?n" for i
  proof -
    have l: "length (?outs ! i) = w" "length (?ins ! (i + 1)) = w" "length (?cars ! i) = w"
      using i L(4,6,7) by auto
    from zero i have "common_zero \<sigma> (alg_stage_polys (chain_left ?outs ?ins i) (?ins ! (i + 1)) (?outs ! i)
                         (?cars ! i) w)"
      by (simp add: alg_polys_def common_zero_concat_map k w)
    then have "lsb_chain \<sigma> (?outs ! i) (chain_left ?outs ?ins i) (?ins ! (i + 1)) (?cars ! i)"
      using alg_stage_sem [OF l(1)] by simp
    then show ?thesis
      using lsb_chain_iff [OF left [OF i] l(2,1,3) w(2)] by simp
  qed
  then have ch: "chain_outs sumbits_lsb \<sigma> ?outs ?ins"
    by (simp add: chain_outs_def L(1))
  have lt: "length ?outs < length ?ins" using L(1,2) by simp
  have n1: "k - 2 < length ?outs" using L(1) k by simp
  have "map \<sigma> (alg_outputs self op) = chain_value sumbits_lsb (map (map \<sigma>) ?ins) (k - 2)"
    using chain_sound [OF ch lt n1] L(8) by simp
  then show ?thesis
    using alg_chain_value(2) [OF k w(1) len, of \<sigma> ip] by (simp add: word_val_lsb_def)
qed

lemma alg_complete:
  assumes k: "description_1 self = k" "2 \<le> k" and w: "output_bit_size self = w" "1 \<le> w"
    and len: "input_bit_size self = k * w"
    and dist: "distinct (alg_aux self @ alg_outputs self op)"
    and disj: "set (alg_aux self @ alg_outputs self op) \<inter> set (alg_inputs self ip) = {}"
    and target: "word_val_lsb \<sigma> (alg_outputs self op) = operands_sum_lsb \<sigma> (alg_inputs self ip) w k mod 2 ^ w"
  shows "\<exists>\<sigma>'. agree_off (alg_aux self) \<sigma> \<sigma>' \<and> common_zero \<sigma>' (alg_polys self ip op)"
proof -
  let ?outs = "alg_stage_outs self op" and ?ins = "alg_stage_ins self ip"
  let ?cars = "alg_carries self"
  let ?n = "k - 1"
  let ?vs = "map (map \<sigma>) ?ins"
  let ?L = "concat (map (\<lambda>i. ?cars ! i @ ?outs ! i) [0..<?n])"
  note L = alg_lists [OF k w(1) len]
  have vlen: "length (?vs ! j) = w" if "j \<le> ?n" for j
    using that L(2,6) by simp
  have cvl: "length (chain_value sumbits_lsb ?vs i) = w" if "i < ?n" for i
  proof -
    have "\<forall>j \<le> i + 1. length (?vs ! j) = w" using that vlen by simp
    from chain_value_sumbits_lsb [OF this] show ?thesis by simp
  qed
  have clv: "length (chain_left_value sumbits_lsb ?vs i) = w" if "i < ?n" for i
    using that cvl [of "i - 1"] vlen [of 0] by (cases i) (auto simp: chain_left_value_def)
  have lens1: "\<forall>i<?n. length (?outs ! i) = length (chain_value sumbits_lsb ?vs i)"
    using L(4) cvl by simp
  have lens2: "\<forall>i<?n. length (?cars ! i) = length (carries_lsb (chain_left_value sumbits_lsb ?vs i) (?vs ! (i + 1)))"
    using L(7) clv by simp
  have nth_all: "map ((!) ?cars) [0..<?n] = ?cars" "map ((!) ?outs) [0..<?n] = ?outs"
    using L(1,3) by (metis map_nth)+
  have co: "concat ?outs = concat (alg_aux_outputs self) @ alg_outputs self op"
    by (simp add: alg_stage_outs_def)
  have "mset ?L = mset (concat (map ((!) ?cars) [0..<?n])) + mset (concat (map ((!) ?outs) [0..<?n]))"
    by (rule mset_concat_interleave)
  then have msL: "mset ?L = mset (alg_aux self @ alg_outputs self op)"
    unfolding nth_all co alg_aux_def by simp
  have dL: "distinct ?L"
    using dist mset_eq_imp_distinct_iff [OF msL] by simp
  have sL: "set ?L = set (alg_aux self @ alg_outputs self op)"
    using msL by (rule mset_eq_setD)
  have "set (concat ?ins) \<subseteq> set (alg_inputs self ip)"
    using set_operand [of "alg_inputs self ip"] by (auto simp: alg_stage_ins_def)
  with disj sL have dj: "set ?L \<inter> set (concat ?ins) = {}" by blast
  from chain_complete [OF L(1,2) refl lens1 lens2 dL dj]
  obtain \<sigma>' where ag: "agree_off ?L \<sigma> \<sigma>'"
    and co': "chain_outs sumbits_lsb \<sigma>' ?outs ?ins" and ca: "chain_auxs carries_lsb \<sigma>' ?outs ?ins ?cars"
    and cv: "\<forall>i<?n. map \<sigma>' (?outs ! i) = chain_value sumbits_lsb ?vs i"
    by blast
  have "map \<sigma>' (alg_outputs self op) = chain_value sumbits_lsb ?vs (k - 2)"
  proof -
    have "k - 2 < ?n" using k by auto
    with cv L(8) show ?thesis by metis
  qed
  moreover have "lsb_val (map \<sigma> (alg_outputs self op)) = lsb_val (chain_value sumbits_lsb ?vs (k - 2))"
    using target alg_chain_value(2) [OF k w(1) len, of \<sigma> ip] by (simp add: word_val_lsb_def)
  moreover have "length (map \<sigma> (alg_outputs self op)) = length (chain_value sumbits_lsb ?vs (k - 2))"
    using alg_chain_value(1) [OF k w(1) len, of \<sigma> ip] by (simp add: alg_outputs_def w)
  ultimately have same: "map \<sigma>' (alg_outputs self op) = map \<sigma> (alg_outputs self op)"
    using lsb_val_inj by metis
  then have "\<forall>v \<in> set (alg_outputs self op). \<sigma>' v = \<sigma> v" by simp
  moreover have "set ?L \<subseteq> set (alg_aux self) \<union> set (alg_outputs self op)"
    using sL by simp
  ultimately have agree: "agree_off (alg_aux self) \<sigma> \<sigma>'"
    using ag agree_off_set by blast
  have left: "length (chain_left ?outs ?ins i) = w" if "i < ?n" for i
    using that L(4,6) by (cases i) (auto simp: chain_left_def)
  have stage: "common_zero \<sigma>' (alg_stage_polys (chain_left ?outs ?ins i) (?ins ! (i + 1)) (?outs ! i)
                         (?cars ! i) w)" if i: "i < ?n" for i
  proof -
    let ?x = "chain_left ?outs ?ins i" and ?y = "?ins ! (i + 1)"
    have l: "length (?outs ! i) = w" "length ?y = w" "length (?cars ! i) = w"
      using i L(4,6,7) by auto
    have o: "map \<sigma>' (?outs ! i) = sumbits_lsb (map \<sigma>' ?x) (map \<sigma>' ?y)"
      using co' i L(1) by (simp add: chain_outs_def)
    have c: "map \<sigma>' (?cars ! i) = carries_lsb (map \<sigma>' ?x) (map \<sigma>' ?y)"
      using ca i L(1) by (simp add: chain_auxs_def)
    have "lsb_chain \<sigma>' (?outs ! i) ?x ?y (?cars ! i)"
      using lsb_chain_iff [OF left [OF i] l(2,1,3) w(2)] c o by simp
    then show ?thesis using alg_stage_sem [OF l(1)] by simp
  qed
  then have "common_zero \<sigma>' (alg_polys self ip op)"
    by (simp add: alg_polys_def common_zero_concat_map k w)
  with agree show ?thesis by blast
qed

section \<open>The CP constraints of one addition\<close>

lemma cp_twoterms_append:
  "cp_twoterms input_1 input_2 out w cs ds
     = (ds @ [DArray 1 (int w - 1) (''carry_'' @ out)], cs @ cp_twoterms_constraints input_1 input_2 out w)"
  by (simp add: cp_twoterms_def cp_twoterms_constraints_def Let_def)

lemma bit_cases: "cp_bits \<rho> \<Longrightarrow> \<rho> n i = 0 \<or> \<rho> n i = 1"
  by (simp add: cp_bits_def)

lemma cp_maj_sem:
  assumes "cp_bits \<rho>"
  shows "(\<rho> c i = (\<rho> a j * \<rho> b j' + \<rho> a j * \<rho> d l + \<rho> d l * \<rho> b j') mod 2)
           = ((\<rho> c i = 1) = maj3 (\<rho> a j = 1) (\<rho> b j' = 1) (\<rho> d l = 1))"
  using bit_cases [OF assms, of c i] bit_cases [OF assms, of a j] bit_cases [OF assms, of b j']
    bit_cases [OF assms, of d l]
  by (auto simp: maj3_def)

lemma cp_xor3_sem:
  assumes "cp_bits \<rho>"
  shows "(\<rho> c i = (\<rho> a j + \<rho> b j' + \<rho> d l) mod 2)
           = ((\<rho> c i = 1) = xor3 (\<rho> a j = 1) (\<rho> b j' = 1) (\<rho> d l = 1))"
  using bit_cases [OF assms, of c i] bit_cases [OF assms, of a j] bit_cases [OF assms, of b j']
    bit_cases [OF assms, of d l]
  by (auto simp: xor3_def)

lemma cp_and_sem:
  assumes "cp_bits \<rho>"
  shows "(\<rho> c i = (\<rho> a j * \<rho> b j') mod 2) = ((\<rho> c i = 1) = (\<rho> a j = 1 \<and> \<rho> b j' = 1))"
  using bit_cases [OF assms, of c i] bit_cases [OF assms, of a j] bit_cases [OF assms, of b j']
  by auto

lemma cp_xor2_sem:
  assumes "cp_bits \<rho>"
  shows "(\<rho> c i = (\<rho> a j + \<rho> b j') mod 2) = ((\<rho> c i = 1) = ((\<rho> a j = 1) \<noteq> (\<rho> b j' = 1)))"
  using bit_cases [OF assms, of c i] bit_cases [OF assms, of a j] bit_cases [OF assms, of b j']
  by auto

lemma list_all_map_iff: "list_all P (map f xs) = (\<forall>i \<in> set xs. P (f i))"
  by (simp add: list_all_iff)

lemma cp_block_sem:
  assumes b: "cp_bits \<rho>" and w: "2 \<le> w"
  shows "list_all (cp_holds n \<rho>) (cp_twoterms_constraints in1 in2 out w)
         = carry_chain (cp_sigma \<rho>) (cp_array out w) (cp_array in1 w) (cp_array in2 w) (cp_carry_array out w)"
proof -
  let ?c = "''carry_'' @ out"
  let ?P1 = "map (\<lambda>i. CEq (CRef ?c (int i))
                        (CMod (CAdd (CAdd (CMul (CRef in1 (int i)) (CRef in2 (int i)))
                                          (CMul (CRef in1 (int i)) (CRef ?c (int i + 1))))
                                    (CMul (CRef ?c (int i + 1)) (CRef in2 (int i)))) 2))
                [1..<w - 1]"
  let ?c1 = "CEq (CRef ?c (int w - 1)) (CMod (CMul (CRef in1 (int w - 1)) (CRef in2 (int w - 1))) 2)"
  let ?P2 = "map (\<lambda>i. CEq (CRef out (int i))
                        (CMod (CAdd (CAdd (CRef in1 (int i)) (CRef in2 (int i)))
                                    (CRef ?c (int i + 1))) 2))
                [0..<w - 1]"
  let ?c2 = "CEq (CRef out (int w - 1)) (CMod (CAdd (CRef in1 (int w - 1)) (CRef in2 (int w - 1))) 2)"
  have parts: "cp_twoterms_constraints in1 in2 out w = ?P1 @ [?c1] @ ?P2 @ [?c2]"
    by (simp add: cp_twoterms_constraints_def cp_twoterms_def Let_def)
  have a1: "list_all (cp_holds n \<rho>) ?P1 \<longleftrightarrow>
        (\<forall>i \<in> set [1..<w - 1]. (\<rho> ?c (int i) = 1) = maj3 (\<rho> in1 (int i) = 1) (\<rho> in2 (int i) = 1) (\<rho> ?c (int i + 1) = 1))"
    by (simp only: list_all_map_iff cp_holds.simps cp_eval.simps cp_maj_sem [OF b])
  have a2: "cp_holds n \<rho> ?c1 \<longleftrightarrow> (\<rho> ?c (int w - 1) = 1) = (\<rho> in1 (int w - 1) = 1 \<and> \<rho> in2 (int w - 1) = 1)"
    by (simp only: cp_holds.simps cp_eval.simps cp_and_sem [OF b])
  have a3: "list_all (cp_holds n \<rho>) ?P2 \<longleftrightarrow>
        (\<forall>i \<in> set [0..<w - 1]. (\<rho> out (int i) = 1) = xor3 (\<rho> in1 (int i) = 1) (\<rho> in2 (int i) = 1) (\<rho> ?c (int i + 1) = 1))"
    by (simp only: list_all_map_iff cp_holds.simps cp_eval.simps cp_xor3_sem [OF b])
  have a4: "cp_holds n \<rho> ?c2 \<longleftrightarrow> (\<rho> out (int w - 1) = 1) = ((\<rho> in1 (int w - 1) = 1) \<noteq> (\<rho> in2 (int w - 1) = 1))"
    by (simp only: cp_holds.simps cp_eval.simps cp_xor2_sem [OF b])
  have A: "list_all (cp_holds n \<rho>) (cp_twoterms_constraints in1 in2 out w) \<longleftrightarrow>
        (\<forall>i \<in> set [1..<w - 1]. (\<rho> ?c (int i) = 1) = maj3 (\<rho> in1 (int i) = 1) (\<rho> in2 (int i) = 1) (\<rho> ?c (int i + 1) = 1))
        \<and> (\<rho> ?c (int w - 1) = 1) = (\<rho> in1 (int w - 1) = 1 \<and> \<rho> in2 (int w - 1) = 1)
        \<and> (\<forall>i \<in> set [0..<w - 1]. (\<rho> out (int i) = 1) = xor3 (\<rho> in1 (int i) = 1) (\<rho> in2 (int i) = 1) (\<rho> ?c (int i + 1) = 1))
        \<and> (\<rho> out (int w - 1) = 1) = ((\<rho> in1 (int w - 1) = 1) \<noteq> (\<rho> in2 (int w - 1) = 1))"
    unfolding parts list_all_append a1 a3 by (simp only: list.pred_inject a2 a4 simp_thms)
  have idx: "cp_array out w ! i = (out, int i)" "cp_array in1 w ! i = (in1, int i)"
    "cp_array in2 w ! i = (in2, int i)" if "i < w" for i
    using that by (simp_all add: cp_array_def)
  have cidx: "cp_carry_array out w ! i = (?c, int i + 1)" if "i + 1 < w" for i
  proof -
    from that have "i < w - 1" by simp
    then show ?thesis unfolding cp_carry_array_def by (simp del: upt_Suc)
  qed
  have len: "length (cp_array out w) = w" by (simp add: cp_array_def)
  have w1: "int (w - 1) = int w - 1" "int (w - 2) + 1 = int w - 1" using w by auto
  have B: "carry_chain (cp_sigma \<rho>) (cp_array out w) (cp_array in1 w) (cp_array in2 w) (cp_carry_array out w) \<longleftrightarrow>
        (\<rho> ?c (int w - 1) = 1) = (\<rho> in1 (int w - 1) = 1 \<and> \<rho> in2 (int w - 1) = 1)
        \<and> (\<forall>i. i + 2 < w \<longrightarrow> (\<rho> ?c (int i + 1) = 1) = maj3 (\<rho> in1 (int i + 1) = 1) (\<rho> in2 (int i + 1) = 1) (\<rho> ?c (int i + 2) = 1))
        \<and> (\<forall>i. i + 1 < w \<longrightarrow> (\<rho> out (int i) = 1) = xor3 (\<rho> in1 (int i) = 1) (\<rho> in2 (int i) = 1) (\<rho> ?c (int i + 1) = 1))
        \<and> (\<rho> out (int w - 1) = 1) = ((\<rho> in1 (int w - 1) = 1) \<noteq> (\<rho> in2 (int w - 1) = 1))"
  proof -
    have l: "cp_sigma \<rho> (cp_carry_array out w ! (w - 2)) = (\<rho> ?c (int w - 1) = 1)"
      "cp_sigma \<rho> (cp_array in1 w ! (w - 1)) = (\<rho> in1 (int w - 1) = 1)"
      "cp_sigma \<rho> (cp_array in2 w ! (w - 1)) = (\<rho> in2 (int w - 1) = 1)"
      "cp_sigma \<rho> (cp_array out w ! (w - 1)) = (\<rho> out (int w - 1) = 1)"
      using w idx [of "w - 1"] cidx [of "w - 2"] w1 by (simp_all add: cp_sigma_def)
    have m: "(i + 2 < w \<longrightarrow> cp_sigma \<rho> (cp_carry_array out w ! i)
                 = maj3 (cp_sigma \<rho> (cp_array in1 w ! (i + 1))) (cp_sigma \<rho> (cp_array in2 w ! (i + 1)))
                        (cp_sigma \<rho> (cp_carry_array out w ! (i + 1))))
             = (i + 2 < w \<longrightarrow> (\<rho> ?c (int i + 1) = 1) = maj3 (\<rho> in1 (int i + 1) = 1) (\<rho> in2 (int i + 1) = 1) (\<rho> ?c (int i + 2) = 1))" for i
      using idx [of "i + 1"] cidx [of i] cidx [of "i + 1"] by (auto simp: cp_sigma_def add.commute)
    have x: "(i + 1 < w \<longrightarrow> cp_sigma \<rho> (cp_array out w ! i)
                 = xor3 (cp_sigma \<rho> (cp_array in1 w ! i)) (cp_sigma \<rho> (cp_array in2 w ! i))
                        (cp_sigma \<rho> (cp_carry_array out w ! i)))
             = (i + 1 < w \<longrightarrow> (\<rho> out (int i) = 1) = xor3 (\<rho> in1 (int i) = 1) (\<rho> in2 (int i) = 1) (\<rho> ?c (int i + 1) = 1))" for i
      using idx [of i] cidx [of i] by (auto simp: cp_sigma_def)
    show ?thesis
      unfolding carry_chain_index len l m x ..
  qed
  have C: "(\<forall>i \<in> set [1..<w - 1]. (\<rho> ?c (int i) = 1) = maj3 (\<rho> in1 (int i) = 1) (\<rho> in2 (int i) = 1) (\<rho> ?c (int i + 1) = 1))
        \<longleftrightarrow> (\<forall>i. i + 2 < w \<longrightarrow> (\<rho> ?c (int i + 1) = 1) = maj3 (\<rho> in1 (int i + 1) = 1) (\<rho> in2 (int i + 1) = 1) (\<rho> ?c (int i + 2) = 1))"
  proof
    assume h: "\<forall>i \<in> set [1..<w - 1]. (\<rho> ?c (int i) = 1) = maj3 (\<rho> in1 (int i) = 1) (\<rho> in2 (int i) = 1) (\<rho> ?c (int i + 1) = 1)"
    show "\<forall>i. i + 2 < w \<longrightarrow> (\<rho> ?c (int i + 1) = 1) = maj3 (\<rho> in1 (int i + 1) = 1) (\<rho> in2 (int i + 1) = 1) (\<rho> ?c (int i + 2) = 1)"
    proof (intro allI impI)
      fix i :: nat
      assume i: "i + 2 < w"
      from i have "Suc i \<in> set [1..<w - 1]" by auto
      with h have g: "(\<rho> ?c (int (Suc i)) = 1) = maj3 (\<rho> in1 (int (Suc i)) = 1) (\<rho> in2 (int (Suc i)) = 1) (\<rho> ?c (int (Suc i) + 1) = 1)"
        by blast
      have e: "int (Suc i) = int i + 1" "int i + 1 + 1 = int i + 2" by simp_all
      from g show "(\<rho> ?c (int i + 1) = 1) = maj3 (\<rho> in1 (int i + 1) = 1) (\<rho> in2 (int i + 1) = 1) (\<rho> ?c (int i + 2) = 1)"
        unfolding e .
    qed
  next
    assume h: "\<forall>i. i + 2 < w \<longrightarrow> (\<rho> ?c (int i + 1) = 1) = maj3 (\<rho> in1 (int i + 1) = 1) (\<rho> in2 (int i + 1) = 1) (\<rho> ?c (int i + 2) = 1)"
    show "\<forall>i \<in> set [1..<w - 1]. (\<rho> ?c (int i) = 1) = maj3 (\<rho> in1 (int i) = 1) (\<rho> in2 (int i) = 1) (\<rho> ?c (int i + 1) = 1)"
    proof
      fix i assume i: "i \<in> set [1..<w - 1]"
      from i have i': "0 < i" "i + 1 < w" by auto
      from i'(1) obtain j where "i = Suc j" using gr0_implies_Suc by blast
      with i'(2) have j: "i = Suc j" "j + 2 < w" by auto
      with h have g: "(\<rho> ?c (int j + 1) = 1) = maj3 (\<rho> in1 (int j + 1) = 1) (\<rho> in2 (int j + 1) = 1) (\<rho> ?c (int j + 2) = 1)"
        by blast
      have e: "int i = int j + 1" "int j + 1 + 1 = int j + 2" using j by simp_all
      show "(\<rho> ?c (int i) = 1) = maj3 (\<rho> in1 (int i) = 1) (\<rho> in2 (int i) = 1) (\<rho> ?c (int i + 1) = 1)"
        unfolding e using g .
    qed
  qed
  have D: "(\<forall>i \<in> set [0..<w - 1]. (\<rho> out (int i) = 1) = xor3 (\<rho> in1 (int i) = 1) (\<rho> in2 (int i) = 1) (\<rho> ?c (int i + 1) = 1))
        \<longleftrightarrow> (\<forall>i. i + 1 < w \<longrightarrow> (\<rho> out (int i) = 1) = xor3 (\<rho> in1 (int i) = 1) (\<rho> in2 (int i) = 1) (\<rho> ?c (int i + 1) = 1))"
    by (auto simp: less_diff_conv)
  show ?thesis unfolding A B C D by blast
qed

section \<open>The CP constraints of MODADD with two and three operands\<close>

lemma cp_all_inputs_vars:
  "cp_all_inputs id_links positions = map (\<lambda>v. CRef (fst v) (snd v)) (cp_input_vars id_links positions)"
  by (simp add: cp_all_inputs_def cp_input_vars_def map_concat o_def case_prod_unfold)

lemma length_cp_all_inputs:
  "length (cp_all_inputs id_links positions) = length (cp_input_vars id_links positions)"
  by (simp add: cp_all_inputs_vars)

lemma cp_copies_eq:
  assumes "length (cp_input_vars id_links positions) = k * w"
  shows "concat (map (\<lambda>i. map (\<lambda>j. CEq (CRef (pre_name oid (int i)) (int j))
                                      (cp_all_inputs id_links positions ! (i * w + j)))
                             [0..<w]) [0..<k])
         = cp_copies oid (cp_input_vars id_links positions) w k"
proof -
  have "i * w + j < k * w" if "i < k" "j < w" for i j
  proof -
    have "i * w + j < i * w + w" using that by simp
    also have "\<dots> = Suc i * w" by simp
    also have "\<dots> \<le> k * w" using that(1) by (intro mult_le_mono1) simp
    finally show ?thesis .
  qed
  then have "cp_all_inputs id_links positions ! (i * w + j)
        = CRef (fst (cp_input_vars id_links positions ! (i * w + j)))
               (snd (cp_input_vars id_links positions ! (i * w + j)))" if "i < k" "j < w" for i j
    using that assms by (simp add: cp_all_inputs_vars)
  then show ?thesis
    unfolding cp_copies_def by (intro arg_cong [where f = concat] map_cong refl) auto
qed

lemma modadd_cp_two:
  assumes "description_1 self = 2" "output_bit_size self = w"
    "length (cp_input_vars (input_id_links self) (input_bit_positions self)) = 2 * w"
  shows "\<exists>ds. MODADD_cp_constraints self =
           Inr (ds, cp_copies (comp_id self) (cp_input_vars (input_id_links self) (input_bit_positions self)) w 2
                    @ cp_twoterms_constraints (pre_name (comp_id self) 1) (pre_name (comp_id self) 0)
                        (comp_id self) w)"
proof -
  have e: "[0..<2 - 2] = []" "[2..<2 * 2 - 2] = []" "2 * int 2 - 3 = 1" by simp_all
  show ?thesis
    unfolding MODADD_cp_constraints_def Let_def assms(1,2) length_cp_all_inputs assms(3) e
    by (simp add: cp_twoterms_append cp_copies_eq [OF assms(3)])
qed

lemma modadd_cp_three:
  assumes "description_1 self = 3" "output_bit_size self = w"
    "length (cp_input_vars (input_id_links self) (input_bit_positions self)) = 3 * w"
  shows "\<exists>ds. MODADD_cp_constraints self =
           Inr (ds, cp_copies (comp_id self) (cp_input_vars (input_id_links self) (input_bit_positions self)) w 3
                    @ cp_twoterms_constraints (pre_name (comp_id self) 2) (pre_name (comp_id self) 1)
                        (pre_name (comp_id self) 3) w
                    @ cp_twoterms_constraints (pre_name (comp_id self) 3) (pre_name (comp_id self) 0)
                        (comp_id self) w)"
proof -
  have e: "[0..<3 - 2] = [0]" "[3..<2 * 3 - 2] = [3]" "2 * int 3 - 3 = 3" "int 3 - 1 = 2"
    "int 0 + 1 = 1" "int 3 + int 0 = 3"
    by (simp_all add: upt_rec)
  show ?thesis
    unfolding MODADD_cp_constraints_def Let_def assms(1,2) length_cp_all_inputs assms(3) e
    by (simp add: cp_twoterms_append cp_copies_eq [OF assms(3)] e)
qed

section \<open>Simultaneous updates\<close>

lemma upd_append_split:
  assumes "length k = length v"
  shows "upd \<sigma> (k @ K) (v @ Vs) = upd (upd \<sigma> K Vs) k v"
proof
  fix x
  show "upd \<sigma> (k @ K) (v @ Vs) x = upd (upd \<sigma> K Vs) k v x"
    using assms
    by (auto simp: upd_def map_add_def split: option.split dest!: map_of_SomeD dest: set_zip_leftD)
qed

lemma upd_concat:
  assumes "list_all2 (\<lambda>k v. length k = length v) ks vs" "distinct (concat ks)"
  shows "list_all2 (\<lambda>k v. map (upd \<sigma> (concat ks) (concat vs)) k = v) ks vs"
  using assms
proof (induction rule: list_all2_induct)
  case Nil
  show ?case by simp
next
  case (Cons k ks v vs)
  from Cons.prems have dk: "distinct k" and dks: "distinct (concat ks)"
    and dj: "set k \<inter> set (concat ks) = {}" by simp_all
  have e: "upd \<sigma> (concat (k # ks)) (concat (v # vs))
             = upd (upd \<sigma> (concat ks) (concat vs)) k v"
    using upd_append_split [OF Cons.hyps(1)] by simp
  have hd: "map (upd (upd \<sigma> (concat ks) (concat vs)) k v) k = v"
    by (rule upd_map_same [OF dk Cons.hyps(1)])
  have tl: "list_all2 (\<lambda>k' v'. map (upd (upd \<sigma> (concat ks) (concat vs)) k v) k' = v') ks vs"
  proof (rule list.rel_mono_strong [OF Cons.IH [OF dks]])
    fix k' v' assume m: "k' \<in> set ks" and h: "map (upd \<sigma> (concat ks) (concat vs)) k' = v'"
    from m dj have "set k' \<inter> set k = {}" by auto
    show "map (upd (upd \<sigma> (concat ks) (concat vs)) k v) k' = v'"
      unfolding upd_map_other [OF \<open>set k' \<inter> set k = {}\<close>] by (rule h)
  qed
  show ?case unfolding e using hd tl by simp
qed

section \<open>Arrays as lists of bits\<close>

lemma length_cp_array [simp]: "length (cp_array a w) = w"
  by (simp add: cp_array_def)

lemma length_cp_carry_array [simp]: "length (cp_carry_array a w) = w - 1"
  by (simp add: cp_carry_array_def)

lemma distinct_cp_array [simp]: "distinct (cp_array a w)"
  by (simp add: cp_array_def distinct_map inj_on_def)

lemma distinct_cp_carry_array [simp]: "distinct (cp_carry_array a w)"
  by (simp add: cp_carry_array_def distinct_map inj_on_def)

lemma fst_cp_array: "v \<in> set (cp_array a w) \<Longrightarrow> fst v = a"
  by (auto simp: cp_array_def)

lemma fst_cp_carry_array: "v \<in> set (cp_carry_array a w) \<Longrightarrow> fst v = ''carry_'' @ a"
  by (auto simp: cp_carry_array_def)

lemma cp_array_disj: "a \<noteq> b \<Longrightarrow> set (cp_array a w) \<inter> set (cp_array b w') = {}"
  by (auto dest: fst_cp_array)

lemma cp_array_carry_disj:
  assumes "a \<noteq> ''carry_'' @ b"
  shows "set (cp_array a w) \<inter> set (cp_carry_array b w') = {}"
    and "set (cp_carry_array b w') \<inter> set (cp_array a w) = {}"
proof -
  have "False" if "v \<in> set (cp_array a w)" "v \<in> set (cp_carry_array b w')" for v
    using fst_cp_array [OF that(1)] fst_cp_carry_array [OF that(2)] assms by simp
  then show "set (cp_array a w) \<inter> set (cp_carry_array b w') = {}"
    and "set (cp_carry_array b w') \<inter> set (cp_array a w) = {}" by blast+
qed

lemma cp_carry_array_disj:
  assumes "a \<noteq> b"
  shows "set (cp_carry_array a w) \<inter> set (cp_carry_array b w') = {}"
proof -
  have "False" if "v \<in> set (cp_carry_array a w)" "v \<in> set (cp_carry_array b w')" for v
    using fst_cp_carry_array [OF that(1)] fst_cp_carry_array [OF that(2)] assms by simp
  then show ?thesis by blast
qed

lemma fst_cp_input_vars: "fst ` set (cp_input_vars id_links positions) \<subseteq> set id_links"
  by (auto simp: cp_input_vars_def dest: set_zip_leftD)

lemma cp_lift:
  assumes b: "cp_bits \<rho>" and ag: "agree_off A (cp_sigma \<rho>) \<sigma>'" and names: "fst ` set A \<subseteq> N"
  shows "\<exists>\<rho>'. cp_bits \<rho>' \<and> cp_sigma \<rho>' = \<sigma>' \<and> (\<forall>name i. name \<notin> N \<longrightarrow> \<rho>' name i = \<rho> name i)"
proof -
  let ?\<rho> = "\<lambda>name i. if \<sigma>' (name, i) then 1 else (0::int)"
  have 1: "cp_bits ?\<rho>" by (simp add: cp_bits_def)
  have 2: "cp_sigma ?\<rho> = \<sigma>'" by (auto simp: cp_sigma_def fun_eq_iff)
  have 3: "?\<rho> name i = \<rho> name i" if "name \<notin> N" for name i
  proof -
    have "(name, i) \<notin> set A" using that names by force
    with ag have "\<sigma>' (name, i) = cp_sigma \<rho> (name, i)" by (simp add: agree_off_def)
    then show ?thesis using bit_cases [OF b, of name i] by (auto simp: cp_sigma_def)
  qed
  from 1 2 3 show ?thesis by blast
qed

lemma operand_nth:
  assumes "length V = k * w" "i < k" "j < w"
  shows "operand V w i ! j = V ! (i * w + j)"
proof -
  have "i * w + j < i * w + w" using assms(3) by simp
  also have "\<dots> = Suc i * w" by simp
  also have "\<dots> \<le> k * w" using assms(2) by (intro mult_le_mono1) simp
  finally have "i * w + j < length V" using assms(1) by simp
  then show ?thesis using assms(3) by (simp add: operand_def)
qed

lemma cp_copies_sem:
  assumes b: "cp_bits \<rho>" and len: "length V = k * w"
  shows "list_all (cp_holds n \<rho>) (cp_copies oid V w k)
         \<longleftrightarrow> (\<forall>i<k. map (cp_sigma \<rho>) (cp_array (pre_name oid (int i)) w)
                        = map (cp_sigma \<rho>) (operand V w i))"
proof -
  have bit: "(\<rho> a i = \<rho> c j) = ((\<rho> a i = 1) = (\<rho> c j = 1))" for a i c j
    using bit_cases [OF b, of a i] bit_cases [OF b, of c j] by auto
  have L: "list_all (cp_holds n \<rho>) (cp_copies oid V w k)
         \<longleftrightarrow> (\<forall>i<k. \<forall>j<w. \<rho> (pre_name oid (int i)) (int j)
                            = \<rho> (fst (V ! (i * w + j))) (snd (V ! (i * w + j))))"
    by (auto simp: cp_copies_def list_all_iff)
  have R: "(map (cp_sigma \<rho>) (cp_array (pre_name oid (int i)) w) = map (cp_sigma \<rho>) (operand V w i))
         \<longleftrightarrow> (\<forall>j<w. \<rho> (pre_name oid (int i)) (int j)
                            = \<rho> (fst (V ! (i * w + j))) (snd (V ! (i * w + j))))" if i: "i < k" for i
  proof -
    have "(map (cp_sigma \<rho>) (cp_array (pre_name oid (int i)) w) = map (cp_sigma \<rho>) (operand V w i))
       \<longleftrightarrow> (\<forall>j<w. cp_sigma \<rho> (cp_array (pre_name oid (int i)) w ! j)
                      = cp_sigma \<rho> (operand V w i ! j))"
      using length_operand [OF len i] by (simp add: list_eq_iff_nth_eq)
    also have "\<dots> \<longleftrightarrow> (\<forall>j<w. \<rho> (pre_name oid (int i)) (int j)
                            = \<rho> (fst (V ! (i * w + j))) (snd (V ! (i * w + j))))"
      using operand_nth [OF len i] by (simp add: cp_array_def cp_sigma_def case_prod_unfold bit)
    finally show ?thesis .
  qed
  show ?thesis unfolding L using R by simp
qed

section \<open>Array names\<close>

lemma longer_neq: "length xs < length ys \<Longrightarrow> xs \<noteq> ys"
  by auto

lemma str_int_digits: "str_int 0 = ''0''" "str_int 1 = ''1''" "str_int 2 = ''2''" "str_int 3 = ''3''"
  by (simp_all add: str_int_def str_nat.simps digit_char_def)

lemma cp_aux_arrays_two:
  "cp_aux_arrays oid 2 = [pre_name oid 0, pre_name oid 1, ''carry_'' @ oid]"
  by (simp add: cp_aux_arrays_def upt_rec)

lemma cp_aux_arrays_three:
  "cp_aux_arrays oid 3 = [pre_name oid 0, pre_name oid 1, pre_name oid 2, pre_name oid 3,
                          ''carry_'' @ pre_name oid 3, ''carry_'' @ oid]"
proof -
  have "[0..<2 * 3 - 2] = [0, 1, 2, 3]" "[0..<3 - 2] = [0::nat]" by (simp_all add: upt_rec)
  then show ?thesis by (simp add: cp_aux_arrays_def)
qed

lemma cp_names_distinct_two: "distinct (oid # cp_aux_arrays oid 2)"
  by (auto simp: cp_aux_arrays_two pre_name_def str_int_digits dest: arg_cong [where f = length])

lemma cp_names_distinct_three: "distinct (oid # cp_aux_arrays oid 3)"
  by (auto simp: cp_aux_arrays_three pre_name_def str_int_digits dest: arg_cong [where f = length])

section \<open>Two and three operands\<close>

lemma all_less_two: "(\<forall>i<2::nat. P i) = (P 0 \<and> P 1)"
  by (auto simp: less_2_cases_iff)

lemma all_less_three: "(\<forall>i<3::nat. P i) = (P 0 \<and> P 1 \<and> P 2)"
  by (auto simp: numeral_3_eq_3 numeral_2_eq_2 less_Suc_eq)

lemma operands_sum_two:
  "operands_sum \<sigma> V w 2 = word_val \<sigma> (operand V w 0) + word_val \<sigma> (operand V w 1)"
proof -
  have "{..<2::nat} = {0, 1}" by auto
  then show ?thesis by (simp add: operands_sum_def)
qed

lemma operands_sum_three:
  "operands_sum \<sigma> V w 3
     = word_val \<sigma> (operand V w 0) + word_val \<sigma> (operand V w 1) + word_val \<sigma> (operand V w 2)"
proof -
  have "{..<3::nat} = {0, 1, 2}" by auto
  then show ?thesis by (simp add: operands_sum_def)
qed

lemma sum_two_val:
  assumes "length a0 = w" "length a1 = w"
  shows "bl_val (sumbits a1 a0) = (bl_val a0 + bl_val a1) mod 2 ^ w"
  using sumbits_mod [of a1 a0] assms by (simp add: add.commute)

lemma sum_three_val:
  assumes "length a0 = w" "length a1 = w" "length a2 = w"
  shows "bl_val (sumbits (sumbits a2 a1) a0) = (bl_val a0 + bl_val a1 + bl_val a2) mod 2 ^ w"
proof -
  have l: "length (sumbits a2 a1) = w" using assms by simp
  have "bl_val (sumbits (sumbits a2 a1) a0) = (bl_val (sumbits a2 a1) + bl_val a0) mod 2 ^ w"
    using sumbits_mod [of "sumbits a2 a1" a0] l assms by simp
  also have "bl_val (sumbits a2 a1) = (bl_val a2 + bl_val a1) mod 2 ^ w"
    using sumbits_mod [of a2 a1] assms by simp
  also have "((bl_val a2 + bl_val a1) mod 2 ^ w + bl_val a0) mod 2 ^ w
               = (bl_val a0 + bl_val a1 + bl_val a2) mod 2 ^ w"
    by (simp add: mod_add_right_eq add.commute add.left_commute)
  finally show ?thesis .
qed

lemma cp_chain_iff:
  assumes "2 \<le> w"
  shows "carry_chain \<sigma> (cp_array out w) (cp_array x w) (cp_array y w) (cp_carry_array out w)
     \<longleftrightarrow> map \<sigma> (cp_carry_array out w) = carries (map \<sigma> (cp_array x w)) (map \<sigma> (cp_array y w))
         \<and> map \<sigma> (cp_array out w) = sumbits (map \<sigma> (cp_array x w)) (map \<sigma> (cp_array y w))"
  using carry_chain_iff [where out = "cp_array out w" and w = w and x = "cp_array x w"
      and y = "cp_array y w" and c = "cp_carry_array out w" and \<sigma> = \<sigma>] assms
  by simp

lemma cp_two_iff:
  assumes b: "cp_bits \<rho>" and w: "2 \<le> w" and len: "length V = 2 * w"
  shows "list_all (cp_holds n \<rho>)
           (cp_copies oid V w 2 @ cp_twoterms_constraints (pre_name oid 1) (pre_name oid 0) oid w)
     \<longleftrightarrow> map (cp_sigma \<rho>) (cp_array (pre_name oid 0) w) = map (cp_sigma \<rho>) (operand V w 0)
       \<and> map (cp_sigma \<rho>) (cp_array (pre_name oid 1) w) = map (cp_sigma \<rho>) (operand V w 1)
       \<and> map (cp_sigma \<rho>) (cp_carry_array oid w)
           = carries (map (cp_sigma \<rho>) (cp_array (pre_name oid 1) w))
                     (map (cp_sigma \<rho>) (cp_array (pre_name oid 0) w))
       \<and> map (cp_sigma \<rho>) (cp_array oid w)
           = sumbits (map (cp_sigma \<rho>) (cp_array (pre_name oid 1) w))
                     (map (cp_sigma \<rho>) (cp_array (pre_name oid 0) w))"
  by (simp add: cp_copies_sem [OF b len] cp_block_sem [OF b w] cp_chain_iff [OF w] all_less_two)

lemma cp_three_iff:
  assumes b: "cp_bits \<rho>" and w: "2 \<le> w" and len: "length V = 3 * w"
  shows "list_all (cp_holds n \<rho>)
           (cp_copies oid V w 3
            @ cp_twoterms_constraints (pre_name oid 2) (pre_name oid 1) (pre_name oid 3) w
            @ cp_twoterms_constraints (pre_name oid 3) (pre_name oid 0) oid w)
     \<longleftrightarrow> map (cp_sigma \<rho>) (cp_array (pre_name oid 0) w) = map (cp_sigma \<rho>) (operand V w 0)
       \<and> map (cp_sigma \<rho>) (cp_array (pre_name oid 1) w) = map (cp_sigma \<rho>) (operand V w 1)
       \<and> map (cp_sigma \<rho>) (cp_array (pre_name oid 2) w) = map (cp_sigma \<rho>) (operand V w 2)
       \<and> map (cp_sigma \<rho>) (cp_carry_array (pre_name oid 3) w)
           = carries (map (cp_sigma \<rho>) (cp_array (pre_name oid 2) w))
                     (map (cp_sigma \<rho>) (cp_array (pre_name oid 1) w))
       \<and> map (cp_sigma \<rho>) (cp_array (pre_name oid 3) w)
           = sumbits (map (cp_sigma \<rho>) (cp_array (pre_name oid 2) w))
                     (map (cp_sigma \<rho>) (cp_array (pre_name oid 1) w))
       \<and> map (cp_sigma \<rho>) (cp_carry_array oid w)
           = carries (map (cp_sigma \<rho>) (cp_array (pre_name oid 3) w))
                     (map (cp_sigma \<rho>) (cp_array (pre_name oid 0) w))
       \<and> map (cp_sigma \<rho>) (cp_array oid w)
           = sumbits (map (cp_sigma \<rho>) (cp_array (pre_name oid 3) w))
                     (map (cp_sigma \<rho>) (cp_array (pre_name oid 0) w))"
  by (simp add: cp_copies_sem [OF b len] cp_block_sem [OF b w] cp_chain_iff [OF w] all_less_three)

lemma cp_two_sound:
  assumes b: "cp_bits \<rho>" and w: "2 \<le> w" and len: "length V = 2 * w"
    and h: "list_all (cp_holds n \<rho>)
           (cp_copies oid V w 2 @ cp_twoterms_constraints (pre_name oid 1) (pre_name oid 0) oid w)"
  shows "word_val (cp_sigma \<rho>) (cp_array oid w) = operands_sum (cp_sigma \<rho>) V w 2 mod 2 ^ w"
proof -
  have l: "length (operand V w 0) = w" "length (operand V w 1) = w"
    using length_operand [OF len] by simp_all
  from h [unfolded cp_two_iff [OF b w len]]
  have "map (cp_sigma \<rho>) (cp_array oid w)
          = sumbits (map (cp_sigma \<rho>) (operand V w 1)) (map (cp_sigma \<rho>) (operand V w 0))"
    by simp
  then show ?thesis
    unfolding word_val_def operands_sum_two using sum_two_val [OF _ _, of "map (cp_sigma \<rho>) (operand V w 0)" w
        "map (cp_sigma \<rho>) (operand V w 1)"] l by simp
qed

lemma cp_three_sound:
  assumes b: "cp_bits \<rho>" and w: "2 \<le> w" and len: "length V = 3 * w"
    and h: "list_all (cp_holds n \<rho>)
           (cp_copies oid V w 3
            @ cp_twoterms_constraints (pre_name oid 2) (pre_name oid 1) (pre_name oid 3) w
            @ cp_twoterms_constraints (pre_name oid 3) (pre_name oid 0) oid w)"
  shows "word_val (cp_sigma \<rho>) (cp_array oid w) = operands_sum (cp_sigma \<rho>) V w 3 mod 2 ^ w"
proof -
  have l: "length (operand V w 0) = w" "length (operand V w 1) = w" "length (operand V w 2) = w"
    using length_operand [OF len] by simp_all
  from h [unfolded cp_three_iff [OF b w len]]
  have "map (cp_sigma \<rho>) (cp_array oid w)
          = sumbits (sumbits (map (cp_sigma \<rho>) (operand V w 2)) (map (cp_sigma \<rho>) (operand V w 1)))
                    (map (cp_sigma \<rho>) (operand V w 0))"
    by simp
  then show ?thesis
    unfolding word_val_def operands_sum_three
    using sum_three_val [of "map (cp_sigma \<rho>) (operand V w 0)" w
        "map (cp_sigma \<rho>) (operand V w 1)" "map (cp_sigma \<rho>) (operand V w 2)"] l by simp
qed

lemma disj_by_names:
  assumes "fst ` set A \<subseteq> N" "fst ` set B \<inter> N = {}"
  shows "set B \<inter> set A = {}"
  using assms by force

lemma cp_two_complete:
  assumes b: "cp_bits \<rho>" and w: "2 \<le> w" and len: "length V = 2 * w"
    and fresh: "fst ` set V \<inter> set (oid # cp_aux_arrays oid 2) = {}"
    and target: "word_val (cp_sigma \<rho>) (cp_array oid w) = operands_sum (cp_sigma \<rho>) V w 2 mod 2 ^ w"
  shows "\<exists>\<rho>'. cp_bits \<rho>' \<and> (\<forall>name i. name \<notin> set (cp_aux_arrays oid 2) \<longrightarrow> \<rho>' name i = \<rho> name i)
           \<and> list_all (cp_holds n \<rho>')
               (cp_copies oid V w 2 @ cp_twoterms_constraints (pre_name oid 1) (pre_name oid 0) oid w)"
proof -
  let ?\<sigma> = "cp_sigma \<rho>"
  let ?P0 = "cp_array (pre_name oid 0) w" and ?P1 = "cp_array (pre_name oid 1) w"
  let ?C = "cp_carry_array oid w" and ?O = "cp_array oid w"
  let ?a0 = "map ?\<sigma> (operand V w 0)" and ?a1 = "map ?\<sigma> (operand V w 1)"
  let ?ks = "[?P0, ?P1, ?C]" and ?vs = "[?a0, ?a1, carries ?a1 ?a0]"
  let ?\<sigma>' = "upd ?\<sigma> (concat ?ks) (concat ?vs)"
  have nm: "distinct [oid, pre_name oid 0, pre_name oid 1, ''carry_'' @ oid]"
    using cp_names_distinct_two [of oid] unfolding cp_aux_arrays_two .
  have la: "length ?a0 = w" "length ?a1 = w" using length_operand [OF len] by simp_all
  have d: "distinct (concat ?ks)"
    using nm by (simp add: cp_array_disj cp_array_carry_disj Int_Un_distrib Int_Un_distrib2)
  have l2: "list_all2 (\<lambda>k v. length k = length v) ?ks ?vs" using la by simp
  from upd_concat [OF l2 d, of ?\<sigma>]
  have v: "map ?\<sigma>' ?P0 = ?a0" "map ?\<sigma>' ?P1 = ?a1" "map ?\<sigma>' ?C = carries ?a1 ?a0" by simp_all
  have ag: "agree_off (concat ?ks) ?\<sigma> ?\<sigma>'" by (rule agree_off_upd)
  have nmks: "fst ` set (concat ?ks) \<subseteq> set (cp_aux_arrays oid 2)"
    unfolding cp_aux_arrays_two by (auto dest: fst_cp_array fst_cp_carry_array)
  have frV: "set V \<inter> set (concat ?ks) = {}"
    using fresh by (intro disj_by_names [OF nmks]) auto
  have frO: "set ?O \<inter> set (concat ?ks) = {}"
  proof (rule disj_by_names [OF nmks])
    have "fst ` set ?O \<subseteq> {oid}" by (auto dest: fst_cp_array)
    moreover have "oid \<notin> set (cp_aux_arrays oid 2)" using cp_names_distinct_two [of oid] by simp
    ultimately show "fst ` set ?O \<inter> set (cp_aux_arrays oid 2) = {}" by auto
  qed
  have ops: "map ?\<sigma>' (operand V w i) = map ?\<sigma> (operand V w i)" for i
    using set_operand [of V w i] frV by (intro agree_off_map [OF ag]) auto
  have out: "map ?\<sigma>' ?O = map ?\<sigma> ?O" by (rule agree_off_map [OF ag frO])
  have tv: "map ?\<sigma> ?O = sumbits ?a1 ?a0"
  proof (rule bl_val_inj)
    show "length (map ?\<sigma> ?O) = length (sumbits ?a1 ?a0)" using la by simp
    show "bl_val (map ?\<sigma> ?O) = bl_val (sumbits ?a1 ?a0)"
      using target unfolding word_val_def operands_sum_two sum_two_val [OF la] .
  qed
  from cp_lift [OF b ag nmks] obtain \<rho>' where r: "cp_bits \<rho>'" "cp_sigma \<rho>' = ?\<sigma>'"
    "\<forall>name i. name \<notin> set (cp_aux_arrays oid 2) \<longrightarrow> \<rho>' name i = \<rho> name i" by blast
  have "list_all (cp_holds n \<rho>')
          (cp_copies oid V w 2 @ cp_twoterms_constraints (pre_name oid 1) (pre_name oid 0) oid w)"
    unfolding cp_two_iff [OF r(1) w len] r(2) v ops out tv by simp
  with r(1,3) show ?thesis by blast
qed

lemma cp_three_complete:
  assumes b: "cp_bits \<rho>" and w: "2 \<le> w" and len: "length V = 3 * w"
    and fresh: "fst ` set V \<inter> set (oid # cp_aux_arrays oid 3) = {}"
    and target: "word_val (cp_sigma \<rho>) (cp_array oid w) = operands_sum (cp_sigma \<rho>) V w 3 mod 2 ^ w"
  shows "\<exists>\<rho>'. cp_bits \<rho>' \<and> (\<forall>name i. name \<notin> set (cp_aux_arrays oid 3) \<longrightarrow> \<rho>' name i = \<rho> name i)
           \<and> list_all (cp_holds n \<rho>')
               (cp_copies oid V w 3
                @ cp_twoterms_constraints (pre_name oid 2) (pre_name oid 1) (pre_name oid 3) w
                @ cp_twoterms_constraints (pre_name oid 3) (pre_name oid 0) oid w)"
proof -
  let ?\<sigma> = "cp_sigma \<rho>"
  let ?P0 = "cp_array (pre_name oid 0) w" and ?P1 = "cp_array (pre_name oid 1) w"
  let ?P2 = "cp_array (pre_name oid 2) w" and ?P3 = "cp_array (pre_name oid 3) w"
  let ?C3 = "cp_carry_array (pre_name oid 3) w"
  let ?C = "cp_carry_array oid w" and ?O = "cp_array oid w"
  let ?a0 = "map ?\<sigma> (operand V w 0)" and ?a1 = "map ?\<sigma> (operand V w 1)"
  let ?a2 = "map ?\<sigma> (operand V w 2)"
  let ?s = "sumbits ?a2 ?a1"
  let ?ks = "[?P0, ?P1, ?P2, ?P3, ?C3, ?C]"
  let ?vs = "[?a0, ?a1, ?a2, ?s, carries ?a2 ?a1, carries ?s ?a0]"
  let ?\<sigma>' = "upd ?\<sigma> (concat ?ks) (concat ?vs)"
  have nm: "distinct [oid, pre_name oid 0, pre_name oid 1, pre_name oid 2, pre_name oid 3,
                      ''carry_'' @ pre_name oid 3, ''carry_'' @ oid]"
    using cp_names_distinct_three [of oid] unfolding cp_aux_arrays_three .
  have la: "length ?a0 = w" "length ?a1 = w" "length ?a2 = w"
    using length_operand [OF len] by simp_all
  have ls: "length ?s = w" using la by simp
  have d: "distinct (concat ?ks)"
    using nm by (simp add: cp_array_disj cp_array_carry_disj cp_carry_array_disj
        Int_Un_distrib Int_Un_distrib2)
  have l2: "list_all2 (\<lambda>k v. length k = length v) ?ks ?vs" using la ls by simp
  from upd_concat [OF l2 d, of ?\<sigma>]
  have v: "map ?\<sigma>' ?P0 = ?a0" "map ?\<sigma>' ?P1 = ?a1" "map ?\<sigma>' ?P2 = ?a2" "map ?\<sigma>' ?P3 = ?s"
    "map ?\<sigma>' ?C3 = carries ?a2 ?a1" "map ?\<sigma>' ?C = carries ?s ?a0" by simp_all
  have ag: "agree_off (concat ?ks) ?\<sigma> ?\<sigma>'" by (rule agree_off_upd)
  have nmks: "fst ` set (concat ?ks) \<subseteq> set (cp_aux_arrays oid 3)"
    unfolding cp_aux_arrays_three by (auto dest: fst_cp_array fst_cp_carry_array)
  have frV: "set V \<inter> set (concat ?ks) = {}"
    using fresh by (intro disj_by_names [OF nmks]) auto
  have frO: "set ?O \<inter> set (concat ?ks) = {}"
  proof (rule disj_by_names [OF nmks])
    have "fst ` set ?O \<subseteq> {oid}" by (auto dest: fst_cp_array)
    moreover have "oid \<notin> set (cp_aux_arrays oid 3)" using cp_names_distinct_three [of oid] by simp
    ultimately show "fst ` set ?O \<inter> set (cp_aux_arrays oid 3) = {}" by auto
  qed
  have ops: "map ?\<sigma>' (operand V w i) = map ?\<sigma> (operand V w i)" for i
    using set_operand [of V w i] frV by (intro agree_off_map [OF ag]) auto
  have out: "map ?\<sigma>' ?O = map ?\<sigma> ?O" by (rule agree_off_map [OF ag frO])
  have tv: "map ?\<sigma> ?O = sumbits ?s ?a0"
  proof (rule bl_val_inj)
    show "length (map ?\<sigma> ?O) = length (sumbits ?s ?a0)" using la ls by simp
    show "bl_val (map ?\<sigma> ?O) = bl_val (sumbits ?s ?a0)"
      using target unfolding word_val_def operands_sum_three sum_three_val [OF la] .
  qed
  from cp_lift [OF b ag nmks] obtain \<rho>' where r: "cp_bits \<rho>'" "cp_sigma \<rho>' = ?\<sigma>'"
    "\<forall>name i. name \<notin> set (cp_aux_arrays oid 3) \<longrightarrow> \<rho>' name i = \<rho> name i" by blast
  have "list_all (cp_holds n \<rho>')
          (cp_copies oid V w 3
           @ cp_twoterms_constraints (pre_name oid 2) (pre_name oid 1) (pre_name oid 3) w
           @ cp_twoterms_constraints (pre_name oid 3) (pre_name oid 0) oid w)"
    unfolding cp_three_iff [OF r(1) w len] r(2) v ops out tv by simp
  with r(1,3) show ?thesis by blast
qed

section \<open>The three encodings of MODADD\<close>

lemma generate_output_ids_facts:
  "fst (generate_output_ids self) = output_bit_size self"
  "length (snd (generate_output_ids self)) = output_bit_size self"
  by (simp_all add: generate_output_ids_def)

lemma length_cp_input_vars:
  "length (cp_input_vars (input_id_links self) (input_bit_positions self))
     = length (snd (generate_input_ids self))"
  by (simp add: cp_input_vars_def generate_input_ids_def length_concat o_def case_prod_unfold)

lemma modadd_sat_correct:
  assumes k: "description_1 self = k" "2 \<le> k" and w: "output_bit_size self = w" "2 \<le> w"
    and len: "length (snd (generate_input_ids self)) = k * w"
  shows "\<exists>cs. MODADD_sat_constraints self
                = Inr (modadd_sat_aux (snd (generate_output_ids self)) k @ snd (generate_output_ids self), cs)
          \<and> (\<forall>\<sigma>. cnf_true \<sigma> cs \<longrightarrow>
                 word_val \<sigma> (snd (generate_output_ids self))
                   = operands_sum \<sigma> (snd (generate_input_ids self)) w k mod 2 ^ w)
          \<and> (distinct (modadd_sat_aux (snd (generate_output_ids self)) k @ snd (generate_output_ids self))
               \<and> set (modadd_sat_aux (snd (generate_output_ids self)) k @ snd (generate_output_ids self))
                   \<inter> set (snd (generate_input_ids self)) = {} \<longrightarrow>
               (\<forall>\<sigma>. word_val \<sigma> (snd (generate_output_ids self))
                      = operands_sum \<sigma> (snd (generate_input_ids self)) w k mod 2 ^ w \<longrightarrow>
                    (\<exists>\<sigma>'. agree_off (modadd_sat_aux (snd (generate_output_ids self)) k) \<sigma> \<sigma>'
                          \<and> cnf_true \<sigma>' cs)))"
proof -
  let ?outs = "snd (generate_output_ids self)" and ?ins = "snd (generate_input_ids self)"
  let ?cs = "concat (map (sat_stage (modadd_outputs_ids ?outs k) (modadd_inputs_ids ?ins w k)
                               (modadd_carries_ids ?outs k) (modadd_intermediates_ids ?outs k))
                            [0..<k - 1])"
  have lo: "length ?outs = w" using generate_output_ids_facts(2) [of self] w(1) by simp
  have eq: "MODADD_sat_constraints self = Inr (modadd_sat_aux ?outs k @ ?outs, ?cs)"
    unfolding MODADD_sat_constraints_def generate_output_ids_facts(1) k(1) w(1)
    by (rule modadd_sat_eq [OF k(2) w(2) len lo])
  have s: "\<forall>\<sigma>. cnf_true \<sigma> ?cs \<longrightarrow> word_val \<sigma> ?outs = operands_sum \<sigma> ?ins w k mod 2 ^ w"
    using modadd_sat_sound [OF k(2) w(2) len lo] by blast
  have c: "distinct (modadd_sat_aux ?outs k @ ?outs)
               \<and> set (modadd_sat_aux ?outs k @ ?outs) \<inter> set ?ins = {} \<longrightarrow>
               (\<forall>\<sigma>. word_val \<sigma> ?outs = operands_sum \<sigma> ?ins w k mod 2 ^ w \<longrightarrow>
                    (\<exists>\<sigma>'. agree_off (modadd_sat_aux ?outs k) \<sigma> \<sigma>' \<and> cnf_true \<sigma>' ?cs))"
    using modadd_sat_complete [OF k(2) w(2) len lo] by blast
  from eq s c show ?thesis by blast
qed

lemma modadd_alg_correct:
  assumes k: "description_1 self = k" "2 \<le> k" and w: "output_bit_size self = w" "1 \<le> w"
    and len: "input_bit_size self = k * w"
  shows "\<exists>ps. MODADD_algebraic_polynomials self ip op = Inr ps
          \<and> (\<forall>\<sigma>. common_zero \<sigma> ps \<longrightarrow>
                 word_val_lsb \<sigma> (alg_outputs self op)
                   = operands_sum_lsb \<sigma> (alg_inputs self ip) w k mod 2 ^ w)
          \<and> (distinct (alg_aux self @ alg_outputs self op)
               \<and> set (alg_aux self @ alg_outputs self op) \<inter> set (alg_inputs self ip) = {} \<longrightarrow>
               (\<forall>\<sigma>. word_val_lsb \<sigma> (alg_outputs self op)
                      = operands_sum_lsb \<sigma> (alg_inputs self ip) w k mod 2 ^ w \<longrightarrow>
                    (\<exists>\<sigma>'. agree_off (alg_aux self) \<sigma> \<sigma>' \<and> common_zero \<sigma>' ps)))"
proof -
  have eq: "MODADD_algebraic_polynomials self ip op = Inr (alg_polys self ip op)"
    by (rule alg_eq [OF k w len])
  have s: "\<forall>\<sigma>. common_zero \<sigma> (alg_polys self ip op) \<longrightarrow>
                 word_val_lsb \<sigma> (alg_outputs self op)
                   = operands_sum_lsb \<sigma> (alg_inputs self ip) w k mod 2 ^ w"
    using alg_sound [OF k w len] by blast
  have c: "distinct (alg_aux self @ alg_outputs self op)
               \<and> set (alg_aux self @ alg_outputs self op) \<inter> set (alg_inputs self ip) = {} \<longrightarrow>
               (\<forall>\<sigma>. word_val_lsb \<sigma> (alg_outputs self op)
                      = operands_sum_lsb \<sigma> (alg_inputs self ip) w k mod 2 ^ w \<longrightarrow>
                    (\<exists>\<sigma>'. agree_off (alg_aux self) \<sigma> \<sigma>' \<and> common_zero \<sigma>' (alg_polys self ip op)))"
    using alg_complete [OF k w len] by blast
  from eq s c show ?thesis by blast
qed

lemma modadd_cp_correct:
  assumes k: "description_1 self = k" "k = 2 \<or> k = 3" and w: "output_bit_size self = w" "2 \<le> w"
    and len: "length (cp_input_vars (input_id_links self) (input_bit_positions self)) = k * w"
  shows "\<exists>ds cs. MODADD_cp_constraints self = Inr (ds, cs)
          \<and> (\<forall>\<rho>. cp_bits \<rho> \<and> list_all (cp_holds w \<rho>) cs \<longrightarrow>
                 word_val (cp_sigma \<rho>) (cp_array (comp_id self) w)
                   = operands_sum (cp_sigma \<rho>)
                       (cp_input_vars (input_id_links self) (input_bit_positions self)) w k mod 2 ^ w)
          \<and> (set (input_id_links self) \<inter> set (comp_id self # cp_aux_arrays (comp_id self) k) = {} \<longrightarrow>
               (\<forall>\<rho>. cp_bits \<rho>
                     \<and> word_val (cp_sigma \<rho>) (cp_array (comp_id self) w)
                         = operands_sum (cp_sigma \<rho>)
                             (cp_input_vars (input_id_links self) (input_bit_positions self)) w k mod 2 ^ w \<longrightarrow>
                    (\<exists>\<rho>'. cp_bits \<rho>'
                          \<and> (\<forall>name i. name \<notin> set (cp_aux_arrays (comp_id self) k) \<longrightarrow> \<rho>' name i = \<rho> name i)
                          \<and> list_all (cp_holds w \<rho>') cs)))"
proof -
  let ?V = "cp_input_vars (input_id_links self) (input_bit_positions self)"
  let ?oid = "comp_id self"
  have fr: "fst ` set ?V \<inter> N = {}" if "set (input_id_links self) \<inter> N = {}" for N
    using that fst_cp_input_vars [of "input_id_links self" "input_bit_positions self"] by blast
  from k(2) show ?thesis
  proof
    assume k2: "k = 2"
    from modadd_cp_two [OF k(1) [unfolded k2] w(1) len [unfolded k2]]
    obtain ds where eq: "MODADD_cp_constraints self =
           Inr (ds, cp_copies ?oid ?V w 2
                    @ cp_twoterms_constraints (pre_name ?oid 1) (pre_name ?oid 0) ?oid w)" by blast
    let ?cs = "cp_copies ?oid ?V w 2 @ cp_twoterms_constraints (pre_name ?oid 1) (pre_name ?oid 0) ?oid w"
    have s: "\<forall>\<rho>. cp_bits \<rho> \<and> list_all (cp_holds w \<rho>) ?cs \<longrightarrow>
                 word_val (cp_sigma \<rho>) (cp_array ?oid w) = operands_sum (cp_sigma \<rho>) ?V w k mod 2 ^ w"
      unfolding k2 using cp_two_sound [OF _ w(2) len [unfolded k2]] by blast
    have c: "set (input_id_links self) \<inter> set (?oid # cp_aux_arrays ?oid k) = {} \<longrightarrow>
               (\<forall>\<rho>. cp_bits \<rho>
                     \<and> word_val (cp_sigma \<rho>) (cp_array ?oid w) = operands_sum (cp_sigma \<rho>) ?V w k mod 2 ^ w \<longrightarrow>
                    (\<exists>\<rho>'. cp_bits \<rho>'
                          \<and> (\<forall>name i. name \<notin> set (cp_aux_arrays ?oid k) \<longrightarrow> \<rho>' name i = \<rho> name i)
                          \<and> list_all (cp_holds w \<rho>') ?cs))"
      unfolding k2 using cp_two_complete [OF _ w(2) len [unfolded k2] fr] by blast
    from eq s c show ?thesis by blast
  next
    assume k3: "k = 3"
    from modadd_cp_three [OF k(1) [unfolded k3] w(1) len [unfolded k3]]
    obtain ds where eq: "MODADD_cp_constraints self =
           Inr (ds, cp_copies ?oid ?V w 3
                    @ cp_twoterms_constraints (pre_name ?oid 2) (pre_name ?oid 1) (pre_name ?oid 3) w
                    @ cp_twoterms_constraints (pre_name ?oid 3) (pre_name ?oid 0) ?oid w)" by blast
    let ?cs = "cp_copies ?oid ?V w 3
                    @ cp_twoterms_constraints (pre_name ?oid 2) (pre_name ?oid 1) (pre_name ?oid 3) w
                    @ cp_twoterms_constraints (pre_name ?oid 3) (pre_name ?oid 0) ?oid w"
    have s: "\<forall>\<rho>. cp_bits \<rho> \<and> list_all (cp_holds w \<rho>) ?cs \<longrightarrow>
                 word_val (cp_sigma \<rho>) (cp_array ?oid w) = operands_sum (cp_sigma \<rho>) ?V w k mod 2 ^ w"
      unfolding k3 using cp_three_sound [OF _ w(2) len [unfolded k3]] by blast
    have c: "set (input_id_links self) \<inter> set (?oid # cp_aux_arrays ?oid k) = {} \<longrightarrow>
               (\<forall>\<rho>. cp_bits \<rho>
                     \<and> word_val (cp_sigma \<rho>) (cp_array ?oid w) = operands_sum (cp_sigma \<rho>) ?V w k mod 2 ^ w \<longrightarrow>
                    (\<exists>\<rho>'. cp_bits \<rho>'
                          \<and> (\<forall>name i. name \<notin> set (cp_aux_arrays ?oid k) \<longrightarrow> \<rho>' name i = \<rho> name i)
                          \<and> list_all (cp_holds w \<rho>') ?cs))"
      unfolding k3 using cp_three_complete [OF _ w(2) len [unfolded k3] fr] by blast
    from eq s c show ?thesis by blast
  qed
qed

section \<open>MODADD and integer addition\<close>

text \<open>
  C1. One component, two operands of two bits, operand bits \<open>x = 10\<close> and \<open>y = 10\<close>
  (index 0 first) in every encoding.

  \<^item> The clauses of \<^verbatim>\<open>sat_constraints\<close> are satisfied with output bits \<open>00\<close>, and with output
    bits \<open>01\<close> under no setting of the carry and intermediate variables: index 0 is the most
    significant bit, \<open>2 + 2 = 0\<close> modulo 4.
  \<^item> The constraints of \<^verbatim>\<open>cp_constraints\<close> are satisfied with output bits \<open>00\<close> as well.
  \<^item> The polynomials of \<^verbatim>\<open>algebraic_polynomials\<close> vanish with output bits \<open>01\<close>, and with
    output bits \<open>00\<close> under no setting of the carry variables: they add with index 0 as the
    least significant bit, \<open>1 + 1 = 2\<close>.

  So the encodings of the same component do not accept the same operand and output words.
\<close>

theorem modadd_backends_disagree:
  "case (MODADD_sat_constraints
           \<lparr>comp_id = ''m'', input_id_links = [''a'', ''b''],
            input_bit_positions = [[0, 1], [0, 1]], input_bit_size = 4,
            output_bit_size = 2, description_1 = 2\<rparr>,
         MODADD_cp_constraints
           \<lparr>comp_id = ''m'', input_id_links = [''a'', ''b''],
            input_bit_positions = [[0, 1], [0, 1]], input_bit_size = 4,
            output_bit_size = 2, description_1 = 2\<rparr>,
         MODADD_algebraic_polynomials
           \<lparr>comp_id = ''m'', input_id_links = [''a'', ''b''],
            input_bit_positions = [[0, 1], [0, 1]], input_bit_size = 4,
            output_bit_size = 2, description_1 = 2\<rparr> ''x'' ''y'')
   of (Inr (ids, clauses), Inr (declarations, constraints), Inr polynomials) \<Rightarrow>
        ids = [''carry_000_m_0'', ''modadd_intermediate_000_m_0'', ''modadd_intermediate_000_m_1'',
               ''m_0'', ''m_1'']
        \<and> cnf_true (\<lambda>v. v \<in> set [''a_0'', ''b_0'']) clauses
        \<and> list_all (\<lambda>aux. \<not> cnf_true (\<lambda>v. v \<in> set ([''a_0'', ''b_0'', ''m_1''] @ aux)) clauses)
             (subseqs (take 3 ids))
        \<and> list_all (cp_holds 2 (\<lambda>name i. if (name, i) \<in> set [(''a'', 0), (''b'', 0),
                                      (''pre_m_0'', 0), (''pre_m_1'', 0)] then 1 else 0)) constraints
        \<and> common_zero (\<lambda>v. v \<in> set [''m_x0'', ''m_x2'', ''m_c0_1'', ''m_y1'']) polynomials
        \<and> list_all (\<lambda>aux. \<not> common_zero (\<lambda>v. v \<in> set ([''m_x0'', ''m_x2''] @ aux)) polynomials)
             (subseqs [''m_c0_0'', ''m_c0_1''])
    | _ \<Rightarrow> False"
  by code_simp

text \<open>
  Each encoding taken alone is an adder in its own bit order. A MODADD component with
  \<open>k \<ge> 2\<close> operands of \<open>w\<close> bits, wired to \<open>k * w\<close> input bits:

  \<^item> SAT, for \<open>w \<ge> 2\<close>: every assignment that satisfies the clauses has its output word equal
    to the sum of the \<open>k\<close> operand words modulo \<open>2 ^ w\<close>, index 0 the most significant bit;
    and when the returned identifiers are distinct and none is an input identifier, every
    assignment of operands and output with that property satisfies the clauses after its
    carry, intermediate and partial-sum variables are set.
  \<^item> Polynomials, for \<open>w \<ge> 1\<close>: the same for the common zeros, with index 0 the \<^emph>\<open>least\<close>
    significant bit.
  \<^item> CP, for \<open>w \<ge> 2\<close> and \<open>k \<le> 3\<close>: the same for the 0/1 arrays that satisfy the
    constraints, index 0 the most significant bit, when no input array has the name of the
    output array or of a declared array.
\<close>

lemma modadd_encodings_add:
  assumes "description_1 self = k" "2 \<le> k" "output_bit_size self = w" "1 \<le> w"
    "input_bit_size self = k * w" "length (snd (generate_input_ids self)) = k * w"
  shows
    "(2 \<le> w \<longrightarrow>
       (\<exists>cs. MODADD_sat_constraints self
                = Inr (modadd_sat_aux (snd (generate_output_ids self)) k @ snd (generate_output_ids self), cs)
          \<and> (\<forall>\<sigma>. cnf_true \<sigma> cs \<longrightarrow>
                 word_val \<sigma> (snd (generate_output_ids self))
                   = operands_sum \<sigma> (snd (generate_input_ids self)) w k mod 2 ^ w)
          \<and> (distinct (modadd_sat_aux (snd (generate_output_ids self)) k @ snd (generate_output_ids self))
               \<and> set (modadd_sat_aux (snd (generate_output_ids self)) k @ snd (generate_output_ids self))
                   \<inter> set (snd (generate_input_ids self)) = {} \<longrightarrow>
               (\<forall>\<sigma>. word_val \<sigma> (snd (generate_output_ids self))
                      = operands_sum \<sigma> (snd (generate_input_ids self)) w k mod 2 ^ w \<longrightarrow>
                    (\<exists>\<sigma>'. agree_off (modadd_sat_aux (snd (generate_output_ids self)) k) \<sigma> \<sigma>'
                          \<and> cnf_true \<sigma>' cs)))))
     \<and> (\<exists>ps. MODADD_algebraic_polynomials self ip op = Inr ps
          \<and> (\<forall>\<sigma>. common_zero \<sigma> ps \<longrightarrow>
                 word_val_lsb \<sigma> (alg_outputs self op)
                   = operands_sum_lsb \<sigma> (alg_inputs self ip) w k mod 2 ^ w)
          \<and> (distinct (alg_aux self @ alg_outputs self op)
               \<and> set (alg_aux self @ alg_outputs self op) \<inter> set (alg_inputs self ip) = {} \<longrightarrow>
               (\<forall>\<sigma>. word_val_lsb \<sigma> (alg_outputs self op)
                      = operands_sum_lsb \<sigma> (alg_inputs self ip) w k mod 2 ^ w \<longrightarrow>
                    (\<exists>\<sigma>'. agree_off (alg_aux self) \<sigma> \<sigma>' \<and> common_zero \<sigma>' ps))))
     \<and> (2 \<le> w \<and> k \<le> 3 \<longrightarrow>
         (\<exists>ds cs. MODADD_cp_constraints self = Inr (ds, cs)
          \<and> (\<forall>\<rho>. cp_bits \<rho> \<and> list_all (cp_holds w \<rho>) cs \<longrightarrow>
                 word_val (cp_sigma \<rho>) (cp_array (comp_id self) w)
                   = operands_sum (cp_sigma \<rho>)
                       (cp_input_vars (input_id_links self) (input_bit_positions self)) w k mod 2 ^ w)
          \<and> (set (input_id_links self) \<inter> set (comp_id self # cp_aux_arrays (comp_id self) k) = {} \<longrightarrow>
               (\<forall>\<rho>. cp_bits \<rho>
                     \<and> word_val (cp_sigma \<rho>) (cp_array (comp_id self) w)
                         = operands_sum (cp_sigma \<rho>)
                             (cp_input_vars (input_id_links self) (input_bit_positions self)) w k mod 2 ^ w \<longrightarrow>
                    (\<exists>\<rho>'. cp_bits \<rho>'
                          \<and> (\<forall>name i. name \<notin> set (cp_aux_arrays (comp_id self) k) \<longrightarrow> \<rho>' name i = \<rho> name i)
                          \<and> list_all (cp_holds w \<rho>') cs)))))"
proof (intro conjI impI)
  assume "2 \<le> w"
  from modadd_sat_correct [OF assms(1,2,3) this assms(6)]
  show "\<exists>cs. MODADD_sat_constraints self
                = Inr (modadd_sat_aux (snd (generate_output_ids self)) k @ snd (generate_output_ids self), cs)
          \<and> (\<forall>\<sigma>. cnf_true \<sigma> cs \<longrightarrow>
                 word_val \<sigma> (snd (generate_output_ids self))
                   = operands_sum \<sigma> (snd (generate_input_ids self)) w k mod 2 ^ w)
          \<and> (distinct (modadd_sat_aux (snd (generate_output_ids self)) k @ snd (generate_output_ids self))
               \<and> set (modadd_sat_aux (snd (generate_output_ids self)) k @ snd (generate_output_ids self))
                   \<inter> set (snd (generate_input_ids self)) = {} \<longrightarrow>
               (\<forall>\<sigma>. word_val \<sigma> (snd (generate_output_ids self))
                      = operands_sum \<sigma> (snd (generate_input_ids self)) w k mod 2 ^ w \<longrightarrow>
                    (\<exists>\<sigma>'. agree_off (modadd_sat_aux (snd (generate_output_ids self)) k) \<sigma> \<sigma>'
                          \<and> cnf_true \<sigma>' cs)))" .
next
  from modadd_alg_correct [OF assms(1,2,3,4,5)]
  show "\<exists>ps. MODADD_algebraic_polynomials self ip op = Inr ps
          \<and> (\<forall>\<sigma>. common_zero \<sigma> ps \<longrightarrow>
                 word_val_lsb \<sigma> (alg_outputs self op)
                   = operands_sum_lsb \<sigma> (alg_inputs self ip) w k mod 2 ^ w)
          \<and> (distinct (alg_aux self @ alg_outputs self op)
               \<and> set (alg_aux self @ alg_outputs self op) \<inter> set (alg_inputs self ip) = {} \<longrightarrow>
               (\<forall>\<sigma>. word_val_lsb \<sigma> (alg_outputs self op)
                      = operands_sum_lsb \<sigma> (alg_inputs self ip) w k mod 2 ^ w \<longrightarrow>
                    (\<exists>\<sigma>'. agree_off (alg_aux self) \<sigma> \<sigma>' \<and> common_zero \<sigma>' ps)))" .
next
  assume a: "2 \<le> w \<and> k \<le> 3"
  with assms(2) have k: "k = 2 \<or> k = 3" by arith
  have len: "length (cp_input_vars (input_id_links self) (input_bit_positions self)) = k * w"
    using assms(6) by (simp add: length_cp_input_vars)
  from modadd_cp_correct [OF assms(1) k assms(3) conjunct1 [OF a] len]
  show "\<exists>ds cs. MODADD_cp_constraints self = Inr (ds, cs)
          \<and> (\<forall>\<rho>. cp_bits \<rho> \<and> list_all (cp_holds w \<rho>) cs \<longrightarrow>
                 word_val (cp_sigma \<rho>) (cp_array (comp_id self) w)
                   = operands_sum (cp_sigma \<rho>)
                       (cp_input_vars (input_id_links self) (input_bit_positions self)) w k mod 2 ^ w)
          \<and> (set (input_id_links self) \<inter> set (comp_id self # cp_aux_arrays (comp_id self) k) = {} \<longrightarrow>
               (\<forall>\<rho>. cp_bits \<rho>
                     \<and> word_val (cp_sigma \<rho>) (cp_array (comp_id self) w)
                         = operands_sum (cp_sigma \<rho>)
                             (cp_input_vars (input_id_links self) (input_bit_positions self)) w k mod 2 ^ w \<longrightarrow>
                    (\<exists>\<rho>'. cp_bits \<rho>'
                          \<and> (\<forall>name i. name \<notin> set (cp_aux_arrays (comp_id self) k) \<longrightarrow> \<rho>' name i = \<rho> name i)
                          \<and> list_all (cp_holds w \<rho>') cs)))" .
qed

lemma modadd_encodings_add_witness:
  "(\<exists>ids cs \<sigma>'. MODADD_sat_constraints
                   \<lparr>comp_id = ''m'', input_id_links = [''a'', ''b''],
                    input_bit_positions = [[0, 1], [0, 1]], input_bit_size = 4,
                    output_bit_size = 2, description_1 = 2\<rparr> = Inr (ids, cs)
        \<and> cnf_true \<sigma>' cs \<and> \<sigma>' ''a_1'' \<and> \<sigma>' ''b_1'' \<and> \<sigma>' ''m_0'')
   \<and> (\<exists>ps \<sigma>'. MODADD_algebraic_polynomials
                   \<lparr>comp_id = ''m'', input_id_links = [''a'', ''b''],
                    input_bit_positions = [[0, 1], [0, 1]], input_bit_size = 4,
                    output_bit_size = 2, description_1 = 2\<rparr> ''x'' ''y'' = Inr ps
        \<and> common_zero \<sigma>' ps \<and> \<sigma>' ''m_x0'' \<and> \<sigma>' ''m_x2'' \<and> \<sigma>' ''m_y1'')
   \<and> (\<exists>ds cs \<rho>'. MODADD_cp_constraints
                   \<lparr>comp_id = ''m'', input_id_links = [''a'', ''b''],
                    input_bit_positions = [[0, 1], [0, 1]], input_bit_size = 4,
                    output_bit_size = 2, description_1 = 2\<rparr> = Inr (ds, cs)
        \<and> cp_bits \<rho>' \<and> list_all (cp_holds 2 \<rho>') cs
        \<and> \<rho>' ''a'' 1 = 1 \<and> \<rho>' ''b'' 1 = 1 \<and> \<rho>' ''m'' 0 = 1)"
proof -
  let ?c = "\<lparr>comp_id = ''m'', input_id_links = [''a'', ''b''],
             input_bit_positions = [[0, 1], [0, 1]], input_bit_size = 4,
             output_bit_size = 2, description_1 = 2\<rparr>"
  let ?s = "\<lambda>v. v \<in> set [''a_1'', ''b_1'', ''m_0'']"
  let ?t = "\<lambda>v. v \<in> set [''m_x0'', ''m_x2'', ''m_y1'']"
  let ?r = "\<lambda>name i. if (name, i) \<in> set [(''a'', 1), (''b'', 1), (''m'', 0)] then 1 else (0::int)"
  have h: "description_1 ?c = 2" "(2::nat) \<le> 2" "output_bit_size ?c = 2" "(1::nat) \<le> 2"
    "input_bit_size ?c = 2 * 2" "length (snd (generate_input_ids ?c)) = 2 * 2"
    by (simp_all add: generate_input_ids_def)
  note T = modadd_encodings_add [OF h, of "''x''" "''y''"]
  have two: "(2::nat) \<le> 2 \<and> (2::nat) \<le> 3" by simp
  note S = T [THEN conjunct1, THEN mp, OF h(2)]
  note A = T [THEN conjunct2, THEN conjunct1]
  note C = T [THEN conjunct2, THEN conjunct2, THEN mp, OF two]
  have sat: "\<exists>ids cs \<sigma>'. MODADD_sat_constraints ?c = Inr (ids, cs)
        \<and> cnf_true \<sigma>' cs \<and> \<sigma>' ''a_1'' \<and> \<sigma>' ''b_1'' \<and> \<sigma>' ''m_0''"
  proof -
    have d: "distinct (modadd_sat_aux (snd (generate_output_ids ?c)) 2 @ snd (generate_output_ids ?c))
             \<and> set (modadd_sat_aux (snd (generate_output_ids ?c)) 2 @ snd (generate_output_ids ?c))
                 \<inter> set (snd (generate_input_ids ?c)) = {}"
      by code_simp
    have t: "word_val ?s (snd (generate_output_ids ?c))
               = operands_sum ?s (snd (generate_input_ids ?c)) 2 2 mod 2 ^ 2"
      unfolding operands_sum_two by code_simp
    have n: "''a_1'' \<notin> set (modadd_sat_aux (snd (generate_output_ids ?c)) 2)"
      "''b_1'' \<notin> set (modadd_sat_aux (snd (generate_output_ids ?c)) 2)"
      "''m_0'' \<notin> set (modadd_sat_aux (snd (generate_output_ids ?c)) 2)"
      by code_simp+
    from S obtain cs where cs: "MODADD_sat_constraints ?c
         = Inr (modadd_sat_aux (snd (generate_output_ids ?c)) 2 @ snd (generate_output_ids ?c), cs)"
      and c: "distinct (modadd_sat_aux (snd (generate_output_ids ?c)) 2 @ snd (generate_output_ids ?c))
               \<and> set (modadd_sat_aux (snd (generate_output_ids ?c)) 2 @ snd (generate_output_ids ?c))
                   \<inter> set (snd (generate_input_ids ?c)) = {} \<longrightarrow>
               (\<forall>\<sigma>. word_val \<sigma> (snd (generate_output_ids ?c))
                      = operands_sum \<sigma> (snd (generate_input_ids ?c)) 2 2 mod 2 ^ 2 \<longrightarrow>
                    (\<exists>\<sigma>'. agree_off (modadd_sat_aux (snd (generate_output_ids ?c)) 2) \<sigma> \<sigma>'
                          \<and> cnf_true \<sigma>' cs))"
      by blast
    from c [THEN mp, OF d, THEN spec, THEN mp, OF t]
    obtain \<sigma>' where s: "agree_off (modadd_sat_aux (snd (generate_output_ids ?c)) 2) ?s \<sigma>'"
      "cnf_true \<sigma>' cs" by blast
    from s(1) n have "\<sigma>' ''a_1''" "\<sigma>' ''b_1''" "\<sigma>' ''m_0''" unfolding agree_off_def by simp_all
    with cs s(2) show ?thesis by blast
  qed
  have alg: "\<exists>ps \<sigma>'. MODADD_algebraic_polynomials ?c ''x'' ''y'' = Inr ps
        \<and> common_zero \<sigma>' ps \<and> \<sigma>' ''m_x0'' \<and> \<sigma>' ''m_x2'' \<and> \<sigma>' ''m_y1''"
  proof -
    have d: "distinct (alg_aux ?c @ alg_outputs ?c ''y'')
               \<and> set (alg_aux ?c @ alg_outputs ?c ''y'') \<inter> set (alg_inputs ?c ''x'') = {}"
      by code_simp
    have os: "operands_sum_lsb \<sigma> V w 2 = word_val_lsb \<sigma> (operand V w 0) + word_val_lsb \<sigma> (operand V w 1)"
      for \<sigma> :: "string \<Rightarrow> bool" and V w
    proof -
      have "{..<2::nat} = {0, 1}" by auto
      then show ?thesis by (simp add: operands_sum_lsb_def)
    qed
    have t: "word_val_lsb ?t (alg_outputs ?c ''y'')
               = operands_sum_lsb ?t (alg_inputs ?c ''x'') 2 2 mod 2 ^ 2"
      unfolding os by code_simp
    have n: "''m_x0'' \<notin> set (alg_aux ?c)" "''m_x2'' \<notin> set (alg_aux ?c)" "''m_y1'' \<notin> set (alg_aux ?c)"
      by code_simp+
    from A obtain ps where ps: "MODADD_algebraic_polynomials ?c ''x'' ''y'' = Inr ps"
      and c: "distinct (alg_aux ?c @ alg_outputs ?c ''y'')
               \<and> set (alg_aux ?c @ alg_outputs ?c ''y'') \<inter> set (alg_inputs ?c ''x'') = {} \<longrightarrow>
               (\<forall>\<sigma>. word_val_lsb \<sigma> (alg_outputs ?c ''y'')
                      = operands_sum_lsb \<sigma> (alg_inputs ?c ''x'') 2 2 mod 2 ^ 2 \<longrightarrow>
                    (\<exists>\<sigma>'. agree_off (alg_aux ?c) \<sigma> \<sigma>' \<and> common_zero \<sigma>' ps))"
      by blast
    from c [THEN mp, OF d, THEN spec, THEN mp, OF t]
    obtain \<sigma>' where s: "agree_off (alg_aux ?c) ?t \<sigma>'" "common_zero \<sigma>' ps" by blast
    from s(1) n have "\<sigma>' ''m_x0''" "\<sigma>' ''m_x2''" "\<sigma>' ''m_y1''" unfolding agree_off_def by simp_all
    with ps s(2) show ?thesis by blast
  qed
  have cp: "\<exists>ds cs \<rho>'. MODADD_cp_constraints ?c = Inr (ds, cs)
        \<and> cp_bits \<rho>' \<and> list_all (cp_holds 2 \<rho>') cs
        \<and> \<rho>' ''a'' 1 = 1 \<and> \<rho>' ''b'' 1 = 1 \<and> \<rho>' ''m'' 0 = 1"
  proof -
    have d: "set (input_id_links ?c) \<inter> set (comp_id ?c # cp_aux_arrays (comp_id ?c) 2) = {}"
      by code_simp
    have b: "cp_bits ?r" by (simp add: cp_bits_def)
    have t: "word_val (cp_sigma ?r) (cp_array (comp_id ?c) 2)
               = operands_sum (cp_sigma ?r) (cp_input_vars (input_id_links ?c) (input_bit_positions ?c)) 2 2
                   mod 2 ^ 2"
      unfolding operands_sum_two by code_simp
    have n: "''a'' \<notin> set (cp_aux_arrays (comp_id ?c) 2)" "''b'' \<notin> set (cp_aux_arrays (comp_id ?c) 2)"
      "''m'' \<notin> set (cp_aux_arrays (comp_id ?c) 2)"
      by code_simp+
    from C obtain ds cs where cs: "MODADD_cp_constraints ?c = Inr (ds, cs)"
      and c: "set (input_id_links ?c) \<inter> set (comp_id ?c # cp_aux_arrays (comp_id ?c) 2) = {} \<longrightarrow>
               (\<forall>\<rho>. cp_bits \<rho>
                     \<and> word_val (cp_sigma \<rho>) (cp_array (comp_id ?c) 2)
                         = operands_sum (cp_sigma \<rho>)
                             (cp_input_vars (input_id_links ?c) (input_bit_positions ?c)) 2 2 mod 2 ^ 2 \<longrightarrow>
                    (\<exists>\<rho>'. cp_bits \<rho>'
                          \<and> (\<forall>name i. name \<notin> set (cp_aux_arrays (comp_id ?c) 2) \<longrightarrow> \<rho>' name i = \<rho> name i)
                          \<and> list_all (cp_holds 2 \<rho>') cs))"
      by blast
    from c [THEN mp, OF d, THEN spec, THEN mp, OF conjI [OF b t]]
    obtain \<rho>' where s: "cp_bits \<rho>'"
      "\<forall>name i. name \<notin> set (cp_aux_arrays (comp_id ?c) 2) \<longrightarrow> \<rho>' name i = ?r name i"
      "list_all (cp_holds 2 \<rho>') cs" by blast
    from s(2) n have "\<rho>' ''a'' 1 = 1" "\<rho>' ''b'' 1 = 1" "\<rho>' ''m'' 0 = 1" by simp_all
    with cs s(1,3) show ?thesis by blast
  qed
  from sat alg cp show ?thesis by (intro conjI)
qed

section \<open>The two's-complement block\<close>

lemma cnf_carry_comp2_sem: "cnf_true \<sigma> (cnf_carry_comp2 c x p) = (\<sigma> c = (\<not> \<sigma> x \<and> \<sigma> p))"
  by (auto simp: cnf_true_def cnf_carry_comp2_def)

lemma cnf_inequality_sem: "cnf_true \<sigma> (cnf_inequality a b) = (\<sigma> a \<noteq> \<sigma> b)"
  by (auto simp: cnf_true_def cnf_inequality_def)

lemma cnf_result_comp2_sem: "cnf_true \<sigma> (cnf_result_comp2 r x c) = (\<sigma> r = ((\<not> \<sigma> x) \<noteq> \<sigma> c))"
  by (auto simp: cnf_true_def cnf_result_comp2_def)

lemma cnf_equivalent2_sem: "cnf_true \<sigma> (cnf_equivalent [a, b]) = (\<sigma> a = \<sigma> b)"
  by (auto simp: cnf_true_def cnf_equivalent_def)

lemma smt_carry_comp2_sem:
  "command_true \<sigma> (smt_assert (smt_equivalent (SVar c) (smt_and [smt_not (SVar x), SVar p])))
     = (\<sigma> c = (\<not> \<sigma> x \<and> \<sigma> p))"
  by (auto simp: smt_assert_def smt_equivalent_def smt_and_def smt_not_def)

lemma smt_distinct_sem:
  "command_true \<sigma> (smt_assert (smt_distinct a b)) = (\<sigma> a \<noteq> \<sigma> b)"
  by (auto simp: smt_assert_def smt_distinct_def)

lemma smt_result_comp2_sem:
  "command_true \<sigma> (smt_assert (smt_equivalent (SVar r) (smt_xor [smt_not (SVar x), SVar c])))
     = (\<sigma> r = ((\<not> \<sigma> x) \<noteq> \<sigma> c))"
  by (auto simp: smt_assert_def smt_equivalent_def smt_xor_def smt_not_def)

lemma smt_equivalent_sem:
  "command_true \<sigma> (smt_assert (smt_equivalent (SVar a) (SVar b))) = (\<sigma> a = \<sigma> b)"
  by (auto simp: smt_assert_def smt_equivalent_def)

lemma twocomp_carries_part:
  assumes len: "length b = w" "length tc = w - 1"
  shows "cnf_true \<sigma> (concat (map (\<lambda>(ci, xi, p). cnf_carry_comp2 ci xi p) (zip tc (zip (tl b) (tl tc)))))
         \<longleftrightarrow> (\<forall>i. i + 2 < w \<longrightarrow> \<sigma> (tc ! i) = (\<not> \<sigma> (b ! (i + 1)) \<and> \<sigma> (tc ! (i + 1))))"
proof -
  have "cnf_true \<sigma> (concat (map (\<lambda>(ci, xi, p). cnf_carry_comp2 ci xi p) (zip tc (zip (tl b) (tl tc)))))
        \<longleftrightarrow> (\<forall>i. i < length tc \<and> i < length (tl b) \<and> i < length (tl tc)
               \<longrightarrow> \<sigma> (tc ! i) = (\<not> \<sigma> (tl b ! i) \<and> \<sigma> (tl tc ! i)))"
    unfolding cnf_true_concat_map ball_zip3 by (simp only: split cnf_carry_comp2_sem)
  also have "\<dots> \<longleftrightarrow> (\<forall>i. i + 2 < w \<longrightarrow> \<sigma> (tc ! i) = (\<not> \<sigma> (b ! (i + 1)) \<and> \<sigma> (tc ! (i + 1))))"
  proof (intro iff_allI)
    fix i
    show "(i < length tc \<and> i < length (tl b) \<and> i < length (tl tc)
               \<longrightarrow> \<sigma> (tc ! i) = (\<not> \<sigma> (tl b ! i) \<and> \<sigma> (tl tc ! i)))
          \<longleftrightarrow> (i + 2 < w \<longrightarrow> \<sigma> (tc ! i) = (\<not> \<sigma> (b ! (i + 1)) \<and> \<sigma> (tc ! (i + 1))))"
    proof (cases "i + 2 < w")
      case True
      then have "i < length tc" "i < length (tl b)" "i < length (tl tc)"
        using len by auto
      moreover from this have "tl b ! i = b ! (i + 1)" "tl tc ! i = tc ! (i + 1)"
        by (simp_all add: nth_tl)
      ultimately show ?thesis using True by simp
    next
      case False
      then have "\<not> i < length (tl tc)" using len by auto
      with False show ?thesis by simp
    qed
  qed
  finally show ?thesis .
qed

lemma twocomp_results_part:
  assumes len: "length res = w" "length b = w" "length tc = w - 1"
  shows "cnf_true \<sigma> (concat (map (\<lambda>(r, xi, ci). cnf_result_comp2 r xi ci) (zip res (zip b tc))))
         \<longleftrightarrow> (\<forall>i. i + 1 < w \<longrightarrow> \<sigma> (res ! i) = ((\<not> \<sigma> (b ! i)) \<noteq> \<sigma> (tc ! i)))"
proof -
  have "cnf_true \<sigma> (concat (map (\<lambda>(r, xi, ci). cnf_result_comp2 r xi ci) (zip res (zip b tc))))
        \<longleftrightarrow> (\<forall>i. i < length res \<and> i < length b \<and> i < length tc
               \<longrightarrow> \<sigma> (res ! i) = ((\<not> \<sigma> (b ! i)) \<noteq> \<sigma> (tc ! i)))"
    unfolding cnf_true_concat_map ball_zip3 by (simp only: split cnf_result_comp2_sem)
  also have "\<dots> \<longleftrightarrow> (\<forall>i. i + 1 < w \<longrightarrow> \<sigma> (res ! i) = ((\<not> \<sigma> (b ! i)) \<noteq> \<sigma> (tc ! i)))"
    using len by (intro iff_allI) auto
  finally show ?thesis .
qed

lemma twocomp_chain_index:
  "twocomp_chain \<sigma> res b tc \<longleftrightarrow>
     ((\<forall>i. i + 2 < length b \<longrightarrow> \<sigma> (tc ! i) = (\<not> \<sigma> (b ! (i + 1)) \<and> \<sigma> (tc ! (i + 1))))
      \<and> \<sigma> (tc ! (length b - 2)) \<noteq> \<sigma> (b ! (length b - 1))
      \<and> (\<forall>i. i + 1 < length b \<longrightarrow> \<sigma> (res ! i) = ((\<not> \<sigma> (b ! i)) \<noteq> \<sigma> (tc ! i)))
      \<and> \<sigma> (res ! (length b - 1)) = \<sigma> (b ! (length b - 1)))"
  by (simp add: twocomp_chain_def Let_def)

lemma two_complement_sem:
  assumes len: "length res = w" "length b = w" "2 \<le> w"
  shows "\<exists>cs. two_complement_sat_constraints res b = Inr (twocomp_carry_ids b, cs)
              \<and> (\<forall>\<sigma>. cnf_true \<sigma> cs = twocomp_chain \<sigma> res b (twocomp_carry_ids b))"
proof -
  let ?tc = "twocomp_carry_ids b"
  have ltc: "length ?tc = w - 1" using len by (simp add: twocomp_carry_ids_def)
  have ne: "?tc \<noteq> []" "b \<noteq> []" "res \<noteq> []" using len ltc by auto
  have w2: "w - 1 - 1 = w - 2" by simp
  let ?A = "concat (map (\<lambda>(ci, xi, p). cnf_carry_comp2 ci xi p) (zip ?tc (zip (tl b) (tl ?tc))))"
  let ?B = "cnf_inequality (?tc ! (w - 2)) (b ! (w - 1))"
  let ?C = "concat (map (\<lambda>(r, xi, ci). cnf_result_comp2 r xi ci) (zip res (zip b ?tc)))"
  let ?D = "cnf_equivalent [res ! (w - 1), b ! (w - 1)]"
  have eq: "two_complement_sat_constraints res b = Inr (?tc, ?A @ ?B @ ?C @ ?D)"
    unfolding two_complement_sat_constraints_def twocomp_carry_ids_def [symmetric] Let_def
      py_last_nonempty [OF ne(1)] py_last_nonempty [OF ne(2)] py_last_nonempty [OF ne(3)]
      ebind_Inr len ltc w2 ..
  have "cnf_true \<sigma> (?A @ ?B @ ?C @ ?D) = twocomp_chain \<sigma> res b ?tc" for \<sigma>
    unfolding cnf_true_append twocomp_carries_part [OF len(2) ltc]
      twocomp_results_part [OF len(1,2) ltc] cnf_inequality_sem cnf_equivalent2_sem
      twocomp_chain_index len
    by blast
  with eq show ?thesis by blast
qed

section \<open>The encodings of MODSUB\<close>

lemma modsub_lists:
  assumes len: "length input_ids = 2 * w" "length output_ids = w"
  shows "length (take w input_ids) = w" "length (drop w input_ids) = w"
    "length (twocomp_result_ids (drop w input_ids)) = w"
    "length (twocomp_carry_ids (drop w input_ids)) = w - 1"
    "length (modsub_carry_ids output_ids) = w - 1"
    "length (modsub_intermediate_ids output_ids) = w"
  using len
  by (simp_all add: twocomp_result_ids_def twocomp_carry_ids_def modsub_carry_ids_def
      modsub_intermediate_ids_def)

lemma modsub_sat_sem:
  assumes len: "length input_ids = 2 * w" "length output_ids = w" and w: "2 \<le> w"
  shows "\<exists>cs. MODSUB_sat_constraints_ids input_ids w output_ids
                = Inr (twocomp_carry_ids (drop w input_ids) @ twocomp_result_ids (drop w input_ids)
                       @ modsub_carry_ids output_ids @ modsub_intermediate_ids output_ids @ output_ids, cs)
          \<and> (\<forall>\<sigma>. cnf_true \<sigma> cs
                 = (modsub_relations \<sigma> input_ids w output_ids
                    \<and> intermediate_xors \<sigma> (modsub_intermediate_ids output_ids) (take w input_ids)
                        (twocomp_result_ids (drop w input_ids))))"
proof -
  note l = modsub_lists [OF len]
  from two_complement_sem [OF l(3) l(2) w]
  obtain cs1 where c1: "two_complement_sat_constraints (twocomp_result_ids (drop w input_ids)) (drop w input_ids)
                          = Inr (twocomp_carry_ids (drop w input_ids), cs1)"
    and s1: "\<forall>\<sigma>. cnf_true \<sigma> cs1 = twocomp_chain \<sigma> (twocomp_result_ids (drop w input_ids))
                       (drop w input_ids) (twocomp_carry_ids (drop w input_ids))"
    by blast
  from sat_modadd_sem [OF len(2) l(1) l(3) l(5) l(6) w]
  obtain cs2 where c2: "sat_modadd output_ids (take w input_ids) (twocomp_result_ids (drop w input_ids))
                          (modsub_carry_ids output_ids) (modsub_intermediate_ids output_ids) = Inr cs2"
    and s2: "\<forall>\<sigma>. cnf_true \<sigma> cs2
                 = (carry_chain \<sigma> output_ids (take w input_ids) (twocomp_result_ids (drop w input_ids))
                      (modsub_carry_ids output_ids)
                    \<and> intermediate_xors \<sigma> (modsub_intermediate_ids output_ids) (take w input_ids)
                        (twocomp_result_ids (drop w input_ids)))"
    by blast
  have eq: "MODSUB_sat_constraints_ids input_ids w output_ids
                = Inr (twocomp_carry_ids (drop w input_ids) @ twocomp_result_ids (drop w input_ids)
                       @ modsub_carry_ids output_ids @ modsub_intermediate_ids output_ids @ output_ids,
                       cs1 @ cs2)"
    unfolding MODSUB_sat_constraints_ids_def Let_def twocomp_result_ids_def [symmetric]
      modsub_carry_ids_def [symmetric] modsub_intermediate_ids_def [symmetric] c1 ebind_Inr split c2 ..
  have "cnf_true \<sigma> (cs1 @ cs2)
          = (modsub_relations \<sigma> input_ids w output_ids
             \<and> intermediate_xors \<sigma> (modsub_intermediate_ids output_ids) (take w input_ids)
                 (twocomp_result_ids (drop w input_ids)))" for \<sigma>
    unfolding cnf_true_append s1 [rule_format] s2 [rule_format] modsub_relations_def by blast
  with eq show ?thesis by blast
qed

lemma twocomp_carries_part_smt:
  assumes len: "length b = w" "length tc = w - 1"
  shows "smt_true \<sigma> (map (\<lambda>(ci, xi, p). smt_assert (smt_equivalent (SVar ci)
                                           (smt_and [smt_not (SVar xi), SVar p])))
                         (zip tc (zip (tl b) (tl tc))))
         \<longleftrightarrow> (\<forall>i. i + 2 < w \<longrightarrow> \<sigma> (tc ! i) = (\<not> \<sigma> (b ! (i + 1)) \<and> \<sigma> (tc ! (i + 1))))"
proof -
  have "smt_true \<sigma> (map (\<lambda>(ci, xi, p). smt_assert (smt_equivalent (SVar ci)
                                           (smt_and [smt_not (SVar xi), SVar p])))
                         (zip tc (zip (tl b) (tl tc))))
        \<longleftrightarrow> cnf_true \<sigma> (concat (map (\<lambda>(ci, xi, p). cnf_carry_comp2 ci xi p) (zip tc (zip (tl b) (tl tc)))))"
    unfolding smt_true_map cnf_true_concat_map ball_zip3
    by (simp only: split cnf_carry_comp2_sem smt_carry_comp2_sem)
  then show ?thesis unfolding twocomp_carries_part [OF len] .
qed

lemma twocomp_results_part_smt:
  assumes len: "length res = w" "length b = w" "length tc = w - 1"
  shows "smt_true \<sigma> (map (\<lambda>(r, xi, ci). smt_assert (smt_equivalent (SVar r)
                                           (smt_xor [smt_not (SVar xi), SVar ci])))
                         (zip res (zip b tc)))
         \<longleftrightarrow> (\<forall>i. i + 1 < w \<longrightarrow> \<sigma> (res ! i) = ((\<not> \<sigma> (b ! i)) \<noteq> \<sigma> (tc ! i)))"
proof -
  have "smt_true \<sigma> (map (\<lambda>(r, xi, ci). smt_assert (smt_equivalent (SVar r)
                                           (smt_xor [smt_not (SVar xi), SVar ci])))
                         (zip res (zip b tc)))
        \<longleftrightarrow> cnf_true \<sigma> (concat (map (\<lambda>(r, xi, ci). cnf_result_comp2 r xi ci) (zip res (zip b tc))))"
    unfolding smt_true_map cnf_true_concat_map ball_zip3
    by (simp only: split cnf_result_comp2_sem smt_result_comp2_sem)
  then show ?thesis unfolding twocomp_results_part [OF len] .
qed

lemma smt_true_single: "smt_true \<sigma> [c] = command_true \<sigma> c"
  by (simp add: smt_true_def)

lemma modsub_smt_sem:
  assumes len: "length input_ids = 2 * w" "length output_ids = w" and w: "2 \<le> w"
  shows "\<exists>cs. MODSUB_smt_constraints_ids input_ids w output_ids
                = Inr (twocomp_carry_ids (drop w input_ids) @ twocomp_result_ids (drop w input_ids)
                       @ modsub_carry_ids output_ids @ output_ids, cs)
          \<and> (\<forall>\<sigma>. smt_true \<sigma> cs = modsub_relations \<sigma> input_ids w output_ids)"
proof -
  note l = modsub_lists [OF len]
  let ?b = "drop w input_ids"
  let ?tc = "twocomp_carry_ids ?b" and ?tr = "twocomp_result_ids ?b"
  have ne: "?tc \<noteq> []" "?b \<noteq> []" "?tr \<noteq> []" using l w by auto
  have w2: "w - 1 - 1 = w - 2" by simp
  from smt_modadd_sem [OF len(2) l(1) l(3) l(5) w]
  obtain cs2 where c2: "smt_modadd output_ids (take w input_ids) ?tr (modsub_carry_ids output_ids) = Inr cs2"
    and s2: "\<forall>\<sigma>. smt_true \<sigma> cs2
                 = carry_chain \<sigma> output_ids (take w input_ids) ?tr (modsub_carry_ids output_ids)"
    by blast
  let ?A = "map (\<lambda>(ci, xi, p). smt_assert (smt_equivalent (SVar ci) (smt_and [smt_not (SVar xi), SVar p])))
                (zip ?tc (zip (tl ?b) (tl ?tc)))"
  let ?B = "[smt_assert (smt_distinct (?tc ! (w - 2)) (?b ! (w - 1)))]"
  let ?C = "map (\<lambda>(r, xi, ci). smt_assert (smt_equivalent (SVar r) (smt_xor [smt_not (SVar xi), SVar ci])))
                (zip ?tr (zip ?b ?tc))"
  let ?D = "[smt_assert (smt_equivalent (SVar (?tr ! (w - 1))) (SVar (?b ! (w - 1))))]"
  have eq: "MODSUB_smt_constraints_ids input_ids w output_ids
                = Inr (?tc @ ?tr @ modsub_carry_ids output_ids @ output_ids, ?A @ ?B @ ?C @ ?D @ cs2)"
    unfolding MODSUB_smt_constraints_ids_def Let_def twocomp_result_ids_def [symmetric]
      twocomp_carry_ids_def [symmetric] modsub_carry_ids_def [symmetric]
      py_last_nonempty [OF ne(1)] py_last_nonempty [OF ne(2)] py_last_nonempty [OF ne(3)]
      ebind_Inr c2 l w2 ..
  have "smt_true \<sigma> (?A @ ?B @ ?C @ ?D @ cs2) = modsub_relations \<sigma> input_ids w output_ids" for \<sigma>
    unfolding smt_true_append twocomp_carries_part_smt [OF l(2) l(4)]
      twocomp_results_part_smt [OF l(3) l(2) l(4)] smt_true_single smt_distinct_sem smt_equivalent_sem
      s2 [rule_format] modsub_relations_def twocomp_chain_index l
    by blast
  with eq show ?thesis by blast
qed

lemma modsub_relations_iff:
  assumes len: "length input_ids = 2 * w" "length output_ids = w" and w: "2 \<le> w"
  shows "modsub_relations \<sigma> input_ids w output_ids \<longleftrightarrow>
           map \<sigma> (twocomp_carry_ids (drop w input_ids)) = twocomp_carries (map \<sigma> (drop w input_ids))
         \<and> map \<sigma> (twocomp_result_ids (drop w input_ids)) = twocomp_bits (map \<sigma> (drop w input_ids))
         \<and> map \<sigma> (modsub_carry_ids output_ids)
             = carries (map \<sigma> (take w input_ids)) (map \<sigma> (twocomp_result_ids (drop w input_ids)))
         \<and> map \<sigma> output_ids
             = sumbits (map \<sigma> (take w input_ids)) (map \<sigma> (twocomp_result_ids (drop w input_ids)))"
proof -
  note l = modsub_lists [OF len]
  show ?thesis
    unfolding modsub_relations_def twocomp_chain_iff [OF l(2) l(3) l(4) w]
      carry_chain_iff [OF len(2) l(1) l(3) l(5) w]
    by blast
qed

lemma modsub_relations_value:
  assumes len: "length input_ids = 2 * w" "length output_ids = w" and w: "2 \<le> w"
    and r: "modsub_relations \<sigma> input_ids w output_ids"
  shows "word_val \<sigma> (twocomp_result_ids (drop w input_ids))
           = (2 ^ w - word_val \<sigma> (drop w input_ids)) mod 2 ^ w"
    and "int (word_val \<sigma> output_ids)
           = (int (word_val \<sigma> (take w input_ids)) - int (word_val \<sigma> (drop w input_ids))) mod 2 ^ w"
proof -
  note l = modsub_lists [OF len]
  from r [unfolded modsub_relations_iff [OF len w]]
  have tr: "map \<sigma> (twocomp_result_ids (drop w input_ids)) = twocomp_bits (map \<sigma> (drop w input_ids))"
    and out: "map \<sigma> output_ids
             = sumbits (map \<sigma> (take w input_ids)) (map \<sigma> (twocomp_result_ids (drop w input_ids)))"
    by blast+
  let ?a = "word_val \<sigma> (take w input_ids)" and ?b = "word_val \<sigma> (drop w input_ids)"
  have blt: "?b < 2 ^ w" using bl_val_lt [of "map \<sigma> (drop w input_ids)"] l by (simp add: word_val_def)
  show t: "word_val \<sigma> (twocomp_result_ids (drop w input_ids)) = (2 ^ w - ?b) mod 2 ^ w"
    unfolding word_val_def tr using twocomp_bits_mod [of "map \<sigma> (drop w input_ids)"] l by simp
  have "word_val \<sigma> output_ids = (?a + (2 ^ w - ?b) mod 2 ^ w) mod 2 ^ w"
    using sumbits_mod [of "map \<sigma> (take w input_ids)" "map \<sigma> (twocomp_result_ids (drop w input_ids))"]
      l t out by (simp add: word_val_def)
  also have "\<dots> = (?a + (2 ^ w - ?b)) mod 2 ^ w" by (simp add: mod_add_right_eq)
  finally have e1: "int (word_val \<sigma> output_ids) = int (?a + (2 ^ w - ?b)) mod 2 ^ w"
    by (simp add: zmod_int)
  have e2: "int (?a + (2 ^ w - ?b)) = (int ?a - int ?b) + 1 * 2 ^ w"
    using blt by simp
  show "int (word_val \<sigma> output_ids) = (int ?a - int ?b) mod 2 ^ w"
    unfolding e1 e2 by (simp only: mod_mult_self1)
qed

section \<open>MODSUB of one-bit words\<close>

text \<open>
  C3. A two-operand MODSUB component of width 1. The list \<^verbatim>\<open>twocomp_carry_ids\<close> is built from
  \<^verbatim>\<open>input_ids[:-1]\<close> and is empty, and \<^verbatim>\<open>two_complement_sat_constraints\<close> and
  \<^verbatim>\<open>MODSUB.smt_constraints\<close> read \<^verbatim>\<open>twocomp_carry_ids[-1]\<close>: \<^verbatim>\<open>sat_constraints\<close> and
  \<^verbatim>\<open>smt_constraints\<close> end in \<open>IndexError\<close> and return no constraint set, where the two's
  complement of a one-bit word is the word itself and the output is the XOR of the operands.
\<close>

theorem modsub_one_bit_component_raises:
  "two_complement_sat_constraints [''twocomp_result_b_0''] [''b_0''] = Inl IndexError
   \<and> MODSUB_sat_constraints
         \<lparr>comp_id = ''modsub_0_7'', input_id_links = [''a'', ''b''],
          input_bit_positions = [[0], [0]], input_bit_size = 2,
          output_bit_size = 1, description_1 = 2\<rparr> = Inl IndexError
   \<and> MODSUB_smt_constraints
         \<lparr>comp_id = ''modsub_0_7'', input_id_links = [''a'', ''b''],
          input_bit_positions = [[0], [0]], input_bit_size = 2,
          output_bit_size = 1, description_1 = 2\<rparr> = Inl IndexError"
  by code_simp

section \<open>The names of the two's-complement variables\<close>

text \<open>
  C8. Two MODSUB components with the ids \<^verbatim>\<open>modsub_0_7\<close> and \<^verbatim>\<open>modsub_1_7\<close> and the same
  wiring. The names \<^verbatim>\<open>twocomp_carry_{input_id}\<close> and \<^verbatim>\<open>twocomp_result_{input_id}\<close> are
  derived from the identifiers of the second operand's bits, not from the component id: the
  identifier lists that \<^verbatim>\<open>sat_constraints\<close> and \<^verbatim>\<open>smt_constraints\<close> return for the two
  components share \<^verbatim>\<open>twocomp_carry_b_0\<close>, \<^verbatim>\<open>twocomp_result_b_0\<close> and \<^verbatim>\<open>twocomp_result_b_1\<close>.
  The \<^verbatim>\<open>carry_\<close> and \<^verbatim>\<open>intermediate_\<close> names, derived from the output identifiers, are not
  shared.
\<close>

theorem modsub_twocomp_names_shared:
  "case (MODSUB_sat_constraints
           \<lparr>comp_id = ''modsub_0_7'', input_id_links = [''a'', ''b''],
            input_bit_positions = [[0, 1], [0, 1]], input_bit_size = 4,
            output_bit_size = 2, description_1 = 2\<rparr>,
         MODSUB_sat_constraints
           \<lparr>comp_id = ''modsub_1_7'', input_id_links = [''a'', ''b''],
            input_bit_positions = [[0, 1], [0, 1]], input_bit_size = 4,
            output_bit_size = 2, description_1 = 2\<rparr>,
         MODSUB_smt_constraints
           \<lparr>comp_id = ''modsub_0_7'', input_id_links = [''a'', ''b''],
            input_bit_positions = [[0, 1], [0, 1]], input_bit_size = 4,
            output_bit_size = 2, description_1 = 2\<rparr>,
         MODSUB_smt_constraints
           \<lparr>comp_id = ''modsub_1_7'', input_id_links = [''a'', ''b''],
            input_bit_positions = [[0, 1], [0, 1]], input_bit_size = 4,
            output_bit_size = 2, description_1 = 2\<rparr>)
   of (Inr (sat_ids_1, sat_1), Inr (sat_ids_2, sat_2), Inr (smt_ids_1, smt_1), Inr (smt_ids_2, smt_2)) \<Rightarrow>
        sat_ids_1 = [''twocomp_carry_b_0'', ''twocomp_result_b_0'', ''twocomp_result_b_1'',
                     ''carry_modsub_0_7_0'', ''intermediate_modsub_0_7_0'', ''intermediate_modsub_0_7_1'',
                     ''modsub_0_7_0'', ''modsub_0_7_1'']
        \<and> sat_ids_2 = [''twocomp_carry_b_0'', ''twocomp_result_b_0'', ''twocomp_result_b_1'',
                     ''carry_modsub_1_7_0'', ''intermediate_modsub_1_7_0'', ''intermediate_modsub_1_7_1'',
                     ''modsub_1_7_0'', ''modsub_1_7_1'']
        \<and> filter (\<lambda>v. v \<in> set sat_ids_2) sat_ids_1
             = [''twocomp_carry_b_0'', ''twocomp_result_b_0'', ''twocomp_result_b_1'']
        \<and> filter (\<lambda>v. v \<in> set smt_ids_2) smt_ids_1
             = [''twocomp_carry_b_0'', ''twocomp_result_b_0'', ''twocomp_result_b_1'']
    | _ \<Rightarrow> False"
  by code_simp

end
